theory Spec2Isabelle
  imports Main "HOL-Library.Word"
begin

section \<open>Addresses, exceptions and outcomes\<close>

text \<open>
  A raw payload pointer \<open>T*\<close> is a \<open>handle option\<close>, \<open>None\<close> being \<open>nullptr\<close>.
  \<open>Raw n\<close> is the address of an object allocated on its own (or of any sub-object),
  \<open>Storage a\<close> is the address of the storage embedded in the combined control block
  \<open>a\<close> (what \<open>MakeSharedControlBlock::Get\<close> returns). A control-block pointer
  \<open>BaseControlBlock*\<close> is a \<open>nat option\<close>: the position of the block in the heap.
\<close>

datatype handle = Raw nat | Storage nat

datatype failure = BadWeakPtr | ConstructorFailure

text \<open>
  An operation returns a value and the new state, throws an exception leaving a state
  behind, or has undefined behaviour (it dereferences a control block that is not
  allocated any more).
\<close>

datatype ('a, 's) outcome = Returned 'a 's | Thrown failure 's | Undefined

section \<open>Control blocks (src/weak/shared.h)\<close>

text \<open>
  \<open>PtrControlBlock\<close> holds \<open>ptr_\<close>; \<open>MakeSharedControlBlock\<close> holds the embedded
  storage and \<open>was_data_deleted_\<close>. Both inherit the two \<open>size_t\<close> counters of
  \<open>BaseControlBlock\<close>. Two ghost fields record what cannot be read back from the
  C++ object: \<open>destroy_calls\<close> counts how often the payload's destructor has been run
  through this block (\<open>delete ptr_\<close> or \<open>Get()->~T()\<close>), \<open>free_calls\<close> counts how often
  the block itself has been deallocated (\<open>delete block_\<close>).
\<close>

datatype block_body = PtrControlBlock "handle option" | MakeSharedControlBlock bool

record control_block =
  shared_counter :: "64 word"
  weak_counter :: "64 word"
  body :: block_body
  destroy_calls :: nat
  free_calls :: nat

definition IncrementShared :: "control_block \<Rightarrow> control_block" where
  "IncrementShared b = b\<lparr>shared_counter := shared_counter b + 1\<rparr>"

text \<open>
  \<open>DeleteData\<close>, and with it \<open>DecrementShared\<close>, \<open>destructor\<close> and \<open>delete_block\<close>, are
  given here as functions of the block alone: the run of the payload's destructor is
  one step, which nothing interrupts and which changes no control block. That is the
  source for a payload whose destructor touches no smart pointer. In the source the
  guard (\<open>ptr_ = nullptr\<close>, \<open>was_data_deleted_ = true\<close>) is written only after the
  payload's destructor has returned; \<open>DeleteData_on\<close> and the functions after it, in the
  section on payloads whose destructors release pointers, have the destructor as a
  parameter and keep that order.
\<close>

definition DeleteData :: "control_block \<Rightarrow> control_block" where
  "DeleteData b =
     (case body b of
        PtrControlBlock p \<Rightarrow>
          (if p \<noteq> None
           then b\<lparr>body := PtrControlBlock None, destroy_calls := Suc (destroy_calls b)\<rparr>
           else b)
      | MakeSharedControlBlock d \<Rightarrow>
          (if \<not> d
           then b\<lparr>body := MakeSharedControlBlock True, destroy_calls := Suc (destroy_calls b)\<rparr>
           else b))"

definition DecrementShared :: "control_block \<Rightarrow> control_block" where
  "DecrementShared b =
     (let b' = b\<lparr>shared_counter := shared_counter b - 1\<rparr>
      in if shared_counter b' = 0 then DeleteData b' else b')"

definition GetSharedCount :: "control_block \<Rightarrow> 64 word" where
  "GetSharedCount b = shared_counter b"

definition IncrementWeak :: "control_block \<Rightarrow> control_block" where
  "IncrementWeak b = b\<lparr>weak_counter := weak_counter b + 1\<rparr>"

definition DecrementWeak :: "control_block \<Rightarrow> control_block" where
  "DecrementWeak b = b\<lparr>weak_counter := weak_counter b - 1\<rparr>"

definition GetWeakCount :: "control_block \<Rightarrow> 64 word" where
  "GetWeakCount b = weak_counter b"

definition CanBlockBeDeleted :: "control_block \<Rightarrow> bool" where
  "CanBlockBeDeleted b \<longleftrightarrow> shared_counter b = 0 \<and> weak_counter b = 0"

text \<open>
  The destructors: \<open>~PtrControlBlock\<close> calls \<open>DeleteData\<close>; \<open>~MakeSharedControlBlock\<close>
  runs the payload's destructor unless \<open>was_data_deleted_\<close> is set, and does not set it.
\<close>

definition destructor :: "control_block \<Rightarrow> control_block" where
  "destructor b =
     (case body b of
        PtrControlBlock p \<Rightarrow> DeleteData b
      | MakeSharedControlBlock d \<Rightarrow>
          (if \<not> d then b\<lparr>destroy_calls := Suc (destroy_calls b)\<rparr> else b))"

text \<open>The expression \<open>delete block_\<close>: the destructor, then the deallocation.\<close>

definition delete_block :: "control_block \<Rightarrow> control_block" where
  "delete_block b = (let b' = destructor b in b'\<lparr>free_calls := Suc (free_calls b')\<rparr>)"

text \<open>
  The constructors \<open>PtrControlBlock(T* ptr)\<close> and \<open>MakeSharedControlBlock()\<close>: the
  counters start at 0 (their member initialisers) and the body calls \<open>IncrementShared\<close>.
\<close>

definition new_PtrControlBlock :: "handle option \<Rightarrow> control_block" where
  "new_PtrControlBlock ptr =
     IncrementShared \<lparr>shared_counter = 0, weak_counter = 0, body = PtrControlBlock ptr,
       destroy_calls = 0, free_calls = 0\<rparr>"

definition new_MakeSharedControlBlock :: control_block where
  "new_MakeSharedControlBlock =
     IncrementShared \<lparr>shared_counter = 0, weak_counter = 0,
       body = MakeSharedControlBlock False, destroy_calls = 0, free_calls = 0\<rparr>"

section \<open>The heap of control blocks\<close>

text \<open>
  The heap lists every control block ever allocated; \<open>new\<close> appends, so an address is
  never reused and stands for one allocation. A deallocated block stays in the list
  with \<open>free_calls > 0\<close>; dereferencing it, or an address never allocated, is undefined
  behaviour.
\<close>

type_synonym heap = "control_block list"

definition live_block :: "heap \<Rightarrow> nat \<Rightarrow> control_block option" where
  "live_block h a = (if a < length h \<and> free_calls (h ! a) = 0 then Some (h ! a) else None)"

section \<open>SharedPtr (src/weak/shared.h)\<close>

text \<open>
  The members \<open>obj_\<close> and \<open>block_\<close> of both pointer classes, and the counters of the
  block, are written without their trailing underscore. \<open>WeakPtr\<close> is the class of
  src/shared-from-this/weak.h; the class of src/weak/weak.h is the same without the
  member \<open>can_i_delete_block_\<close>, which every constructor they share sets to \<open>true\<close>.
\<close>

record shared_ptr =
  obj :: "handle option"
  block :: "nat option"

record weak_ptr =
  wobj :: "handle option"
  wblock :: "nat option"
  can_i_delete_block :: bool

definition SharedPtr_default :: shared_ptr where
  "SharedPtr_default = \<lparr>obj = None, block = None\<rparr>"

text \<open>\<open>explicit SharedPtr(T* ptr)\<close> and \<open>SharedPtr(Y* ptr)\<close>.\<close>

definition SharedPtr_from_raw :: "handle option \<Rightarrow> heap \<Rightarrow> (shared_ptr, heap) outcome" where
  "SharedPtr_from_raw ptr h =
     Returned \<lparr>obj = ptr, block = Some (length h)\<rparr> (h @ [new_PtrControlBlock ptr])"

text \<open>\<open>SharedPtr(const SharedPtr& other)\<close> and its converting template.\<close>

definition SharedPtr_copy :: "shared_ptr \<Rightarrow> heap \<Rightarrow> (shared_ptr, heap) outcome" where
  "SharedPtr_copy other h =
     (case block other of
        None \<Rightarrow> Returned \<lparr>obj = obj other, block = None\<rparr> h
      | Some a \<Rightarrow>
          (case live_block h a of
             None \<Rightarrow> Undefined
           | Some b \<Rightarrow>
               Returned \<lparr>obj = obj other, block = Some a\<rparr> (h[a := IncrementShared b])))"

definition SharedPtr_Swap :: "shared_ptr \<Rightarrow> shared_ptr \<Rightarrow> shared_ptr \<times> shared_ptr" where
  "SharedPtr_Swap this other = (other, this)"

text \<open>
  \<open>SharedPtr(SharedPtr&& other)\<close>: the members start as \<open>nullptr\<close> and are swapped with
  \<open>other\<close>. The result is the pair (the new pointer, what is left in \<open>other\<close>).
\<close>

definition SharedPtr_move :: "shared_ptr \<Rightarrow> shared_ptr \<times> shared_ptr" where
  "SharedPtr_move other = SharedPtr_Swap SharedPtr_default other"

text \<open>The aliasing constructor \<open>SharedPtr(const SharedPtr<Y>& other, T* ptr)\<close>.\<close>

definition SharedPtr_alias ::
  "shared_ptr \<Rightarrow> handle option \<Rightarrow> heap \<Rightarrow> (shared_ptr, heap) outcome" where
  "SharedPtr_alias other ptr h =
     (case block other of
        None \<Rightarrow> Returned \<lparr>obj = ptr, block = None\<rparr> h
      | Some a \<Rightarrow>
          (case live_block h a of
             None \<Rightarrow> Undefined
           | Some b \<Rightarrow>
               Returned \<lparr>obj = ptr, block = Some a\<rparr> (h[a := IncrementShared b])))"

text \<open>\<open>WeakPtr::Expired\<close>: \<open>None\<close> is the undefined read of a deallocated block.\<close>

definition WeakPtr_Expired :: "weak_ptr \<Rightarrow> heap \<Rightarrow> bool option" where
  "WeakPtr_Expired this h =
     (case wblock this of
        None \<Rightarrow> Some True
      | Some a \<Rightarrow> map_option (\<lambda>b. GetSharedCount b = 0) (live_block h a))"

text \<open>
  \<open>explicit SharedPtr(const WeakPtr<T>& other, bool from_lock = false)\<close>. With a block
  attached and \<open>other\<close> expired, the lock mode only clears \<open>obj_\<close> and the strict mode
  throws; in every case that does not throw, the constructor goes on to
  \<open>block_->IncrementShared()\<close>.
\<close>

definition SharedPtr_from_weak ::
  "weak_ptr \<Rightarrow> bool \<Rightarrow> heap \<Rightarrow> (shared_ptr, heap) outcome" where
  "SharedPtr_from_weak other from_lock h =
     (case wblock other of
        None \<Rightarrow> Returned \<lparr>obj = wobj other, block = None\<rparr> h
      | Some a \<Rightarrow>
          (case live_block h a of
             None \<Rightarrow> Undefined
           | Some b \<Rightarrow>
               (case WeakPtr_Expired other h of
                  None \<Rightarrow> Undefined
                | Some expired \<Rightarrow>
                    if expired
                    then (if from_lock
                          then Returned \<lparr>obj = None, block = Some a\<rparr>
                                 (h[a := IncrementShared b])
                          else Thrown BadWeakPtr h)
                    else Returned \<lparr>obj = wobj other, block = Some a\<rparr>
                           (h[a := IncrementShared b]))))"

text \<open>\<open>SharedPtr::Reset()\<close>, which is also the destructor \<open>~SharedPtr\<close>.\<close>

definition SharedPtr_Reset :: "shared_ptr \<Rightarrow> heap \<Rightarrow> (shared_ptr, heap) outcome" where
  "SharedPtr_Reset this h =
     (case block this of
        None \<Rightarrow> Returned \<lparr>obj = None, block = None\<rparr> h
      | Some a \<Rightarrow>
          (case live_block h a of
             None \<Rightarrow> Undefined
           | Some b \<Rightarrow>
               (let b1 = DecrementShared b
                in Returned \<lparr>obj = None, block = None\<rparr>
                     (h[a := (if CanBlockBeDeleted b1 then delete_block b1 else b1)]))))"

text \<open>
  \<open>operator=(SharedPtr&& other)\<close>; \<open>same\<close> says whether \<open>this == &other\<close>. The result is
  the pair (the assigned pointer, what is left in \<open>other\<close>). The source \<open>other\<close> is given
  by its value before the call: this is the assignment from a source that the \<open>Reset()\<close>
  of the destination does not reach, a variable of its own. The source runs \<open>Reset()\<close>
  before \<open>Swap(other)\<close> reads \<open>other\<close>; \<open>SharedPtr_move_assign_on\<close> below keeps that order
  for a source that lives in a payload.
\<close>

definition SharedPtr_move_assign ::
  "shared_ptr \<Rightarrow> shared_ptr \<Rightarrow> bool \<Rightarrow> heap \<Rightarrow> (shared_ptr \<times> shared_ptr, heap) outcome" where
  "SharedPtr_move_assign this other same h =
     (if same then Returned (this, other) h
      else (case SharedPtr_Reset this h of
              Returned this' h' \<Rightarrow> Returned (SharedPtr_Swap this' other) h'
            | Thrown e h' \<Rightarrow> Thrown e h'
            | Undefined \<Rightarrow> Undefined))"

definition SharedPtr_Get :: "shared_ptr \<Rightarrow> handle option" where
  "SharedPtr_Get this = obj this"

text \<open>\<open>UseCount\<close> reads the block: \<open>None\<close> is the undefined read of a deallocated block.\<close>

definition SharedPtr_UseCount :: "shared_ptr \<Rightarrow> heap \<Rightarrow> 64 word option" where
  "SharedPtr_UseCount this h =
     (case block this of
        None \<Rightarrow> Some 0
      | Some a \<Rightarrow> map_option GetSharedCount (live_block h a))"

definition SharedPtr_bool :: "shared_ptr \<Rightarrow> bool" where
  "SharedPtr_bool this \<longleftrightarrow> block this \<noteq> None"

text \<open>
  \<open>MakeShared\<close>: the block is allocated, the payload is constructed in its storage, and
  when that constructor throws (\<open>ctor_throws\<close>) the block is deleted and the exception
  rethrown.
\<close>

definition MakeShared :: "bool \<Rightarrow> heap \<Rightarrow> (shared_ptr, heap) outcome" where
  "MakeShared ctor_throws h =
     (let block_ptr = length h; h1 = h @ [new_MakeSharedControlBlock]
      in if ctor_throws
         then Thrown ConstructorFailure (h1[block_ptr := delete_block (h1 ! block_ptr)])
         else Returned \<lparr>obj = Some (Storage block_ptr), block = Some block_ptr\<rparr> h1)"

section \<open>WeakPtr (src/weak/weak.h, src/shared-from-this/weak.h)\<close>

definition WeakPtr_default :: weak_ptr where
  "WeakPtr_default = \<lparr>wobj = None, wblock = None, can_i_delete_block = True\<rparr>"

text \<open>
  \<open>WeakPtr(const WeakPtr& other)\<close>: the flag is not copied, the new pointer has its
  default \<open>true\<close>.
\<close>

definition WeakPtr_copy :: "weak_ptr \<Rightarrow> heap \<Rightarrow> (weak_ptr, heap) outcome" where
  "WeakPtr_copy other h =
     (case wblock other of
        None \<Rightarrow> Returned \<lparr>wobj = wobj other, wblock = None, can_i_delete_block = True\<rparr> h
      | Some a \<Rightarrow>
          (case live_block h a of
             None \<Rightarrow> Undefined
           | Some b \<Rightarrow>
               Returned \<lparr>wobj = wobj other, wblock = Some a, can_i_delete_block = True\<rparr>
                 (h[a := IncrementWeak b])))"

text \<open>\<open>WeakPtr(const SharedPtr<T>& other)\<close>.\<close>

definition WeakPtr_from_shared :: "shared_ptr \<Rightarrow> heap \<Rightarrow> (weak_ptr, heap) outcome" where
  "WeakPtr_from_shared other h =
     (case block other of
        None \<Rightarrow> Returned \<lparr>wobj = obj other, wblock = None, can_i_delete_block = True\<rparr> h
      | Some a \<Rightarrow>
          (case live_block h a of
             None \<Rightarrow> Undefined
           | Some b \<Rightarrow>
               Returned \<lparr>wobj = obj other, wblock = Some a, can_i_delete_block = True\<rparr>
                 (h[a := IncrementWeak b])))"

text \<open>
  \<open>WeakPtr(T* obj, BaseControlBlock* block)\<close> of src/shared-from-this/weak.h, marked
  "For ESFT": the only constructor that clears \<open>can_i_delete_block_\<close>.
\<close>

definition WeakPtr_for_ESFT ::
  "handle option \<Rightarrow> nat option \<Rightarrow> heap \<Rightarrow> (weak_ptr, heap) outcome" where
  "WeakPtr_for_ESFT ob blk h =
     (case blk of
        None \<Rightarrow> Returned \<lparr>wobj = ob, wblock = None, can_i_delete_block = False\<rparr> h
      | Some a \<Rightarrow>
          (case live_block h a of
             None \<Rightarrow> Undefined
           | Some b \<Rightarrow>
               Returned \<lparr>wobj = ob, wblock = Some a, can_i_delete_block = False\<rparr>
                 (h[a := IncrementWeak b])))"

text \<open>\<open>WeakPtr::Reset\<close> of src/shared-from-this/weak.h, also its destructor.\<close>

definition WeakPtr_Reset :: "weak_ptr \<Rightarrow> heap \<Rightarrow> (weak_ptr, heap) outcome" where
  "WeakPtr_Reset this h =
     (case wblock this of
        None \<Rightarrow> Returned (this\<lparr>wobj := None\<rparr>) h
      | Some a \<Rightarrow>
          (case live_block h a of
             None \<Rightarrow> Undefined
           | Some b \<Rightarrow>
               (let b1 = DecrementWeak b
                in Returned (this\<lparr>wobj := None, wblock := None\<rparr>)
                     (h[a := (if CanBlockBeDeleted b1 \<and> can_i_delete_block this
                              then delete_block b1 else b1)]))))"

text \<open>\<open>WeakPtr::Reset\<close> of src/weak/weak.h, where the class has no flag.\<close>

definition WeakPtr_Reset_weak :: "weak_ptr \<Rightarrow> heap \<Rightarrow> (weak_ptr, heap) outcome" where
  "WeakPtr_Reset_weak this h =
     (case wblock this of
        None \<Rightarrow> Returned (this\<lparr>wobj := None\<rparr>) h
      | Some a \<Rightarrow>
          (case live_block h a of
             None \<Rightarrow> Undefined
           | Some b \<Rightarrow>
               (let b1 = DecrementWeak b
                in Returned (this\<lparr>wobj := None, wblock := None\<rparr>)
                     (h[a := (if CanBlockBeDeleted b1 then delete_block b1 else b1)]))))"

definition WeakPtr_UseCount :: "weak_ptr \<Rightarrow> heap \<Rightarrow> 64 word option" where
  "WeakPtr_UseCount this h =
     (case wblock this of
        None \<Rightarrow> Some 0
      | Some a \<Rightarrow> map_option GetSharedCount (live_block h a))"

definition WeakPtr_Lock :: "weak_ptr \<Rightarrow> heap \<Rightarrow> (shared_ptr, heap) outcome" where
  "WeakPtr_Lock this h = SharedPtr_from_weak this True h"

section \<open>Programs over pointer variables\<close>

text \<open>
  A world is the heap together with the pointer objects of a program, each a variable
  known by its position. A new object is appended; a destroyed object stays in place
  as the empty pointer its destructor leaves behind, so positions never shift. No
  pointer of a world is a member of a payload: the payloads of these programs have
  destructors that touch no smart pointer.
\<close>

record world =
  heap :: heap
  sptrs :: "shared_ptr list"
  wptrs :: "weak_ptr list"

definition empty_world :: world where
  "empty_world = \<lparr>heap = [], sptrs = [], wptrs = []\<rparr>"

datatype operation =
    NewShared "handle option"
  | MakeSharedOp bool
  | CopyShared nat
  | MoveShared nat
  | AliasShared nat "handle option"
  | MoveAssignShared nat nat
  | ResetShared nat
  | PromoteWeak nat
  | LockWeak nat
  | WeakOfShared nat
  | CopyWeak nat
  | SelfWeak nat
  | ResetWeak nat

text \<open>
  \<open>NewShared ptr\<close> is \<open>SharedPtr<T> q(ptr)\<close>; \<open>MakeSharedOp t\<close> is \<open>auto q = MakeShared<T>(...)\<close>
  where \<open>t\<close> says that the constructor of \<open>T\<close> throws; \<open>CopyShared i\<close> is
  \<open>SharedPtr<T> q(p\<^sub>i)\<close>; \<open>MoveShared i\<close> is \<open>SharedPtr<T> q(std::move(p\<^sub>i))\<close>;
  \<open>AliasShared i ptr\<close> is \<open>SharedPtr<U> q(p\<^sub>i, ptr)\<close>; \<open>MoveAssignShared i j\<close> is
  \<open>p\<^sub>i = std::move(p\<^sub>j)\<close>; \<open>ResetShared i\<close> is \<open>p\<^sub>i.Reset()\<close> or the end of the lifetime
  of \<open>p\<^sub>i\<close>; \<open>PromoteWeak i\<close> is \<open>SharedPtr<T> q(w\<^sub>i)\<close>; \<open>LockWeak i\<close> is
  \<open>auto q = w\<^sub>i.Lock()\<close>; \<open>WeakOfShared i\<close> is \<open>WeakPtr<T> v(p\<^sub>i)\<close>; \<open>CopyWeak i\<close> is
  \<open>WeakPtr<T> v(w\<^sub>i)\<close>; \<open>SelfWeak i\<close> is \<open>WeakPtr<T> v(obj, block)\<close> with the members
  of \<open>p\<^sub>i\<close>; \<open>ResetWeak i\<close> is \<open>w\<^sub>i.Reset()\<close> or the end of the lifetime of \<open>w\<^sub>i\<close>.
  An operation that names a variable the program does not have changes nothing.
\<close>

fun in_scope :: "operation \<Rightarrow> world \<Rightarrow> bool" where
  "in_scope (NewShared ptr) w = True"
| "in_scope (MakeSharedOp t) w = True"
| "in_scope (CopyShared i) w = (i < length (sptrs w))"
| "in_scope (MoveShared i) w = (i < length (sptrs w))"
| "in_scope (AliasShared i ptr) w = (i < length (sptrs w))"
| "in_scope (MoveAssignShared i j) w = (i < length (sptrs w) \<and> j < length (sptrs w))"
| "in_scope (ResetShared i) w = (i < length (sptrs w))"
| "in_scope (PromoteWeak i) w = (i < length (wptrs w))"
| "in_scope (LockWeak i) w = (i < length (wptrs w))"
| "in_scope (WeakOfShared i) w = (i < length (sptrs w))"
| "in_scope (CopyWeak i) w = (i < length (wptrs w))"
| "in_scope (SelfWeak i) w = (i < length (sptrs w))"
| "in_scope (ResetWeak i) w = (i < length (wptrs w))"

definition push_shared :: "world \<Rightarrow> (shared_ptr, heap) outcome \<Rightarrow> (unit, world) outcome" where
  "push_shared w r =
     (case r of
        Returned q h \<Rightarrow> Returned () (w\<lparr>heap := h, sptrs := sptrs w @ [q]\<rparr>)
      | Thrown e h \<Rightarrow> Thrown e (w\<lparr>heap := h\<rparr>)
      | Undefined \<Rightarrow> Undefined)"

definition push_weak :: "world \<Rightarrow> (weak_ptr, heap) outcome \<Rightarrow> (unit, world) outcome" where
  "push_weak w r =
     (case r of
        Returned v h \<Rightarrow> Returned () (w\<lparr>heap := h, wptrs := wptrs w @ [v]\<rparr>)
      | Thrown e h \<Rightarrow> Thrown e (w\<lparr>heap := h\<rparr>)
      | Undefined \<Rightarrow> Undefined)"

fun exec :: "operation \<Rightarrow> world \<Rightarrow> (unit, world) outcome" where
  "exec (NewShared ptr) w = push_shared w (SharedPtr_from_raw ptr (heap w))"
| "exec (MakeSharedOp t) w = push_shared w (MakeShared t (heap w))"
| "exec (CopyShared i) w = push_shared w (SharedPtr_copy (sptrs w ! i) (heap w))"
| "exec (MoveShared i) w =
     (case SharedPtr_move (sptrs w ! i) of
        (this, other) \<Rightarrow> Returned () (w\<lparr>sptrs := (sptrs w)[i := other] @ [this]\<rparr>))"
| "exec (AliasShared i ptr) w = push_shared w (SharedPtr_alias (sptrs w ! i) ptr (heap w))"
| "exec (MoveAssignShared i j) w =
     (case SharedPtr_move_assign (sptrs w ! i) (sptrs w ! j) (i = j) (heap w) of
        Returned (this, other) h \<Rightarrow>
          Returned () (w\<lparr>heap := h, sptrs := (sptrs w)[j := other, i := this]\<rparr>)
      | Thrown e h \<Rightarrow> Thrown e (w\<lparr>heap := h\<rparr>)
      | Undefined \<Rightarrow> Undefined)"
| "exec (ResetShared i) w =
     (case SharedPtr_Reset (sptrs w ! i) (heap w) of
        Returned this h \<Rightarrow> Returned () (w\<lparr>heap := h, sptrs := (sptrs w)[i := this]\<rparr>)
      | Thrown e h \<Rightarrow> Thrown e (w\<lparr>heap := h\<rparr>)
      | Undefined \<Rightarrow> Undefined)"
| "exec (PromoteWeak i) w = push_shared w (SharedPtr_from_weak (wptrs w ! i) False (heap w))"
| "exec (LockWeak i) w = push_shared w (WeakPtr_Lock (wptrs w ! i) (heap w))"
| "exec (WeakOfShared i) w = push_weak w (WeakPtr_from_shared (sptrs w ! i) (heap w))"
| "exec (CopyWeak i) w = push_weak w (WeakPtr_copy (wptrs w ! i) (heap w))"
| "exec (SelfWeak i) w =
     push_weak w (WeakPtr_for_ESFT (obj (sptrs w ! i)) (block (sptrs w ! i)) (heap w))"
| "exec (ResetWeak i) w =
     (case WeakPtr_Reset (wptrs w ! i) (heap w) of
        Returned this h \<Rightarrow> Returned () (w\<lparr>heap := h, wptrs := (wptrs w)[i := this]\<rparr>)
      | Thrown e h \<Rightarrow> Thrown e (w\<lparr>heap := h\<rparr>)
      | Undefined \<Rightarrow> Undefined)"

definition step :: "operation \<Rightarrow> world \<Rightarrow> (unit, world) outcome" where
  "step x w = (if in_scope x w then exec x w else Returned () w)"

text \<open>
  A program is a list of operations. A thrown exception is caught by the program, which
  goes on from the state the exception left; undefined behaviour ends the run with no
  result.
\<close>

fun run :: "operation list \<Rightarrow> world \<Rightarrow> world option" where
  "run [] w = Some w"
| "run (x # xs) w =
     (case step x w of
        Returned u w' \<Rightarrow> run xs w'
      | Thrown e w' \<Rightarrow> run xs w'
      | Undefined \<Rightarrow> None)"

section \<open>Self reference (spec section 4.4)\<close>

text \<open>
  Modelled from the spec: the wrapping of a payload that has the self-referencing
  capability. Under src/ the class \<open>EnableSharedFromThis\<close> is only declared
  (src/weak/shared.h); the \<open>SharedPtr\<close> constructor that detects the capability and
  installs the weak reference is not there. The spec says that the wrapping operation
  installs a weak reference to the payload, threading the pointer's own control block
  back into the payload. The wrapping is the constructor from a raw handle followed by
  the weak pointer's constructor "For ESFT" of src/shared-from-this/weak.h; the result
  is the owning pointer together with the weak reference now stored in the payload.
\<close>

definition wrap_raw_ESFT ::
  "handle \<Rightarrow> heap \<Rightarrow> (shared_ptr \<times> weak_ptr, heap) outcome" where
  "wrap_raw_ESFT ptr h =
     (case SharedPtr_from_raw (Some ptr) h of
        Returned p h1 \<Rightarrow>
          (case WeakPtr_for_ESFT (obj p) (block p) h1 of
             Returned weak_this h2 \<Rightarrow> Returned (p, weak_this) h2
           | Thrown e h2 \<Rightarrow> Thrown e h2
           | Undefined \<Rightarrow> Undefined)
      | Thrown e h1 \<Rightarrow> Thrown e h1
      | Undefined \<Rightarrow> Undefined)"

text \<open>
  Modelled from the spec: the same wrapping done by the combined-allocation factory,
  which is \<open>MakeShared\<close> of src/weak/shared.h followed by the installation of the weak
  reference; the code that installs it is not under src/.
\<close>

definition MakeShared_ESFT ::
  "bool \<Rightarrow> heap \<Rightarrow> (shared_ptr \<times> weak_ptr, heap) outcome" where
  "MakeShared_ESFT ctor_throws h =
     (case MakeShared ctor_throws h of
        Returned p h1 \<Rightarrow>
          (case WeakPtr_for_ESFT (obj p) (block p) h1 of
             Returned weak_this h2 \<Rightarrow> Returned (p, weak_this) h2
           | Thrown e h2 \<Rightarrow> Thrown e h2
           | Undefined \<Rightarrow> Undefined)
      | Thrown e h1 \<Rightarrow> Thrown e h1
      | Undefined \<Rightarrow> Undefined)"

text \<open>
  Modelled from the spec: \<open>SharedFromThis\<close>, declared and not defined under src/. The
  spec says that it simply promotes the stored weak reference; the promotion is the
  strict constructor \<open>SharedPtr(const WeakPtr<T>&)\<close> of src/weak/shared.h.
\<close>

definition SharedFromThis :: "weak_ptr \<Rightarrow> heap \<Rightarrow> (shared_ptr, heap) outcome" where
  "SharedFromThis weak_this h = SharedPtr_from_weak weak_this False h"

section \<open>UniquePtr (src/unique/unique.h, src/unique/compressed_pair.h)\<close>

text \<open>
  \<open>CompressedPair<T*, Deleter>\<close> with its accessors \<open>GetFirst\<close> and \<open>GetSecond\<close>. The type
  \<open>'d\<close> is the state of the deleter. For an empty deleter class it has a single value,
  so the specialisations that derive from the deleter and drop the constructor's second
  argument build the same pair as the specialisation that stores both members.
\<close>

record 'd CompressedPair =
  GetFirst :: "handle option"
  GetSecond :: 'd

text \<open>
  A \<open>UniquePtr\<close> is its member \<open>data_\<close>. \<open>Deleter()\<close>, the default-constructed deleter,
  is the parameter \<open>dflt\<close> of every operation that constructs one. The calls of a deleter
  are recorded in a log, the latest first, each with the deleter that was called and the
  handle it was given.
\<close>

type_synonym 'd deletions = "('d \<times> handle) list"

definition UniquePtr_new :: "'d \<Rightarrow> handle option \<Rightarrow> 'd CompressedPair" where
  "UniquePtr_new dflt ptr = \<lparr>GetFirst = ptr, GetSecond = dflt\<rparr>"

definition UniquePtr_new_with :: "handle option \<Rightarrow> 'd \<Rightarrow> 'd CompressedPair" where
  "UniquePtr_new_with ptr deleter = \<lparr>GetFirst = ptr, GetSecond = deleter\<rparr>"

definition UniquePtr_Swap ::
  "'d CompressedPair \<Rightarrow> 'd CompressedPair \<Rightarrow> 'd CompressedPair \<times> 'd CompressedPair" where
  "UniquePtr_Swap this other = (other, this)"


definition UniquePtr_Release :: "'d CompressedPair \<Rightarrow> handle option \<times> 'd CompressedPair" where
  "UniquePtr_Release this = (GetFirst this, this\<lparr>GetFirst := None\<rparr>)"

text \<open>
  \<open>Reset(T* ptr = nullptr)\<close>: a pair \<open>to_do_swap(ptr, Deleter())\<close> is swapped with
  \<open>data_\<close>, and the handle it then holds, when not null, is given to the deleter it
  then holds.
\<close>

definition UniquePtr_Reset ::
  "'d \<Rightarrow> handle option \<Rightarrow> 'd CompressedPair \<Rightarrow> 'd deletions \<Rightarrow>
   'd CompressedPair \<times> 'd deletions" where
  "UniquePtr_Reset dflt ptr this log =
     (case UniquePtr_Swap this \<lparr>GetFirst = ptr, GetSecond = dflt\<rparr> of
        (data, to_do_swap) \<Rightarrow>
          (data,
           case GetFirst to_do_swap of
             None \<Rightarrow> log
           | Some h \<Rightarrow> (GetSecond to_do_swap, h) # log))"


text \<open>
  \<open>operator=(UniquePtr&& other)\<close>; \<open>same\<close> says whether \<open>&other == this\<close>. The result is
  the pair (the assigned pointer, what is left in \<open>other\<close>) and the log. The source
  \<open>other\<close> is given by its value before the call: this is the assignment from a source
  that the call of the deleter in \<open>Reset()\<close> does not destroy. The source runs \<open>Reset()\<close>
  before \<open>Swap(other)\<close> reads \<open>other\<close>; \<open>UniquePtr_move_assign_on\<close> below keeps that order
  for a source that lives in the object the destination owns.
\<close>

definition UniquePtr_move_assign ::
  "'d \<Rightarrow> 'd CompressedPair \<Rightarrow> 'd CompressedPair \<Rightarrow> bool \<Rightarrow> 'd deletions \<Rightarrow>
   ('d CompressedPair \<times> 'd CompressedPair) \<times> 'd deletions" where
  "UniquePtr_move_assign dflt this other same log =
     (if same then ((this, other), log)
      else (case UniquePtr_Reset dflt None this log of
              (this', log') \<Rightarrow> (UniquePtr_Swap this' other, log')))"




section \<open>Payloads whose destructors release pointers\<close>

text \<open>
  The member functions of the sections above are functions of one control block and of
  pointers passed by value. They are the source for a payload whose destructor touches
  no control block and for pointers that are variables of their own: there the
  payload's destructor is one step, counted in \<open>destroy_calls\<close>.

  The payload's destructor is code of the program. It runs in the middle of
  \<open>DeleteData\<close>, after the guard has been tested and before it is cleared
  (\<open>delete ptr_; ptr_ = nullptr\<close> and \<open>Get()->~T(); was_data_deleted_ = true\<close>), and it
  destroys the members of the payload, which may be smart pointers. This section gives
  the member functions that run it as functions of the heap, with the destructor of the
  payloads as a parameter \<open>D\<close>: \<open>D p h\<close> is the run of the destructor of the payload at
  \<open>p\<close> that starts in the heap \<open>h\<close>. Every access of a control block goes through
  \<open>live_block\<close>, so an access of a block that has been deallocated in the meantime is
  undefined behaviour. \<open>inert\<close> is the destructor that touches nothing; with it the
  functions of this section are those of the sections above
  (\<open>SharedPtr_Reset_on_inert\<close> and the lemmas before it).
\<close>

type_synonym payload_destructor = "handle \<Rightarrow> heap \<Rightarrow> (unit, heap) outcome"

definition inert :: payload_destructor where
  "inert p h = Returned () h"

text \<open>Sequencing: the second action runs in the heap the first one returned.\<close>

definition and_then ::
  "(unit, heap) outcome \<Rightarrow> (heap \<Rightarrow> ('a, heap) outcome) \<Rightarrow> ('a, heap) outcome" where
  "and_then r f =
     (case r of Returned u h \<Rightarrow> f h | Thrown e h \<Rightarrow> Thrown e h | Undefined \<Rightarrow> Undefined)"

text \<open>A write to the members of the control block at \<open>a\<close>.\<close>

definition write_block ::
  "nat \<Rightarrow> (control_block \<Rightarrow> control_block) \<Rightarrow> heap \<Rightarrow> (unit, heap) outcome" where
  "write_block a f h =
     (case live_block h a of None \<Rightarrow> Undefined | Some b \<Rightarrow> Returned () (h[a := f b]))"

text \<open>
  The expressions \<open>delete ptr_\<close> and \<open>Get()->~T()\<close> of the block \<open>this\<close>: one more
  destructor call is counted on the block, and the destructor of the payload runs.
\<close>

definition destroy_payload ::
  "payload_destructor \<Rightarrow> nat \<Rightarrow> handle \<Rightarrow> heap \<Rightarrow> (unit, heap) outcome" where
  "destroy_payload D this p h =
     and_then (write_block this (\<lambda>b. b\<lparr>destroy_calls := Suc (destroy_calls b)\<rparr>) h) (D p)"

text \<open>
  \<open>PtrControlBlock::DeleteData\<close> and \<open>MakeSharedControlBlock::DeleteData\<close>: the guard
  is read, the payload is destroyed, and only then the guard is cleared, in the block as
  the destructor of the payload left it.
\<close>

definition DeleteData_on :: "payload_destructor \<Rightarrow> nat \<Rightarrow> heap \<Rightarrow> (unit, heap) outcome" where
  "DeleteData_on D this h =
     (case live_block h this of
        None \<Rightarrow> Undefined
      | Some b \<Rightarrow>
          (case body b of
             PtrControlBlock ptr \<Rightarrow>
               (case ptr of
                  None \<Rightarrow> Returned () h
                | Some p \<Rightarrow>
                    and_then (destroy_payload D this p h)
                      (write_block this (\<lambda>b. b\<lparr>body := PtrControlBlock None\<rparr>)))
           | MakeSharedControlBlock d \<Rightarrow>
               (if \<not> d
                then and_then (destroy_payload D this (Storage this) h)
                       (write_block this (\<lambda>b. b\<lparr>body := MakeSharedControlBlock True\<rparr>))
                else Returned () h)))"

definition DecrementShared_on ::
  "payload_destructor \<Rightarrow> nat \<Rightarrow> heap \<Rightarrow> (unit, heap) outcome" where
  "DecrementShared_on D this h =
     and_then (write_block this (\<lambda>b. b\<lparr>shared_counter := shared_counter b - 1\<rparr>) h)
       (\<lambda>h1. case live_block h1 this of
                None \<Rightarrow> Undefined
              | Some b1 \<Rightarrow> if shared_counter b1 = 0 then DeleteData_on D this h1
                           else Returned () h1)"

text \<open>The destructors \<open>~PtrControlBlock\<close> and \<open>~MakeSharedControlBlock\<close>.\<close>

definition destructor_on ::
  "payload_destructor \<Rightarrow> nat \<Rightarrow> heap \<Rightarrow> (unit, heap) outcome" where
  "destructor_on D this h =
     (case live_block h this of
        None \<Rightarrow> Undefined
      | Some b \<Rightarrow>
          (case body b of
             PtrControlBlock ptr \<Rightarrow> DeleteData_on D this h
           | MakeSharedControlBlock d \<Rightarrow>
               (if \<not> d then destroy_payload D this (Storage this) h else Returned () h)))"

text \<open>
  The expression \<open>delete block_\<close>: the destructor of the block, then the deallocation.
  A block that is already deallocated when the destructor has returned is deallocated
  twice, which is undefined.
\<close>

definition delete_on :: "payload_destructor \<Rightarrow> nat \<Rightarrow> heap \<Rightarrow> (unit, heap) outcome" where
  "delete_on D this h =
     and_then (destructor_on D this h)
       (write_block this (\<lambda>b. b\<lparr>free_calls := Suc (free_calls b)\<rparr>))"

text \<open>
  \<open>SharedPtr::Reset\<close> (src/weak/shared.h): \<open>block_->DecrementShared()\<close>, then the read
  \<open>block_->CanBlockBeDeleted()\<close> of the block as the decrement left it, then
  \<open>delete block_\<close>.
\<close>

definition SharedPtr_Reset_on ::
  "payload_destructor \<Rightarrow> shared_ptr \<Rightarrow> heap \<Rightarrow> (shared_ptr, heap) outcome" where
  "SharedPtr_Reset_on D this h =
     (case block this of
        None \<Rightarrow> Returned \<lparr>obj = None, block = None\<rparr> h
      | Some a \<Rightarrow>
          and_then (DecrementShared_on D a h)
            (\<lambda>h1. case live_block h1 a of
                     None \<Rightarrow> Undefined
                   | Some b1 \<Rightarrow>
                       if CanBlockBeDeleted b1
                       then and_then (delete_on D a h1)
                              (\<lambda>h2. Returned \<lparr>obj = None, block = None\<rparr> h2)
                       else Returned \<lparr>obj = None, block = None\<rparr> h1))"

text \<open>\<open>WeakPtr::Reset\<close> of src/shared-from-this/weak.h.\<close>

definition WeakPtr_Reset_on ::
  "payload_destructor \<Rightarrow> weak_ptr \<Rightarrow> heap \<Rightarrow> (weak_ptr, heap) outcome" where
  "WeakPtr_Reset_on D this h =
     (case wblock this of
        None \<Rightarrow> Returned (this\<lparr>wobj := None\<rparr>) h
      | Some a \<Rightarrow>
          and_then (write_block a DecrementWeak h)
            (\<lambda>h1. case live_block h1 a of
                     None \<Rightarrow> Undefined
                   | Some b1 \<Rightarrow>
                       if CanBlockBeDeleted b1 \<and> can_i_delete_block this
                       then and_then (delete_on D a h1)
                              (\<lambda>h2. Returned (this\<lparr>wobj := None, wblock := None\<rparr>) h2)
                       else Returned (this\<lparr>wobj := None, wblock := None\<rparr>) h1))"

text \<open>\<open>WeakPtr::Reset\<close> of src/weak/weak.h, where the class has no flag.\<close>

definition WeakPtr_Reset_weak_on ::
  "payload_destructor \<Rightarrow> weak_ptr \<Rightarrow> heap \<Rightarrow> (weak_ptr, heap) outcome" where
  "WeakPtr_Reset_weak_on D this h =
     (case wblock this of
        None \<Rightarrow> Returned (this\<lparr>wobj := None\<rparr>) h
      | Some a \<Rightarrow>
          and_then (write_block a DecrementWeak h)
            (\<lambda>h1. case live_block h1 a of
                     None \<Rightarrow> Undefined
                   | Some b1 \<Rightarrow>
                       if CanBlockBeDeleted b1
                       then and_then (delete_on D a h1)
                              (\<lambda>h2. Returned (this\<lparr>wobj := None, wblock := None\<rparr>) h2)
                       else Returned (this\<lparr>wobj := None, wblock := None\<rparr>) h1))"

text \<open>
  The destructor of a payload that has one member with a destructor of its own, a weak
  pointer or a shared pointer: the destructor of the payload \<open>owner\<close> runs the
  destructor of the member, which is \<open>Reset\<close>. \<open>nested\<close> is the destructor of every
  payload whose destruction starts while this one runs, and of every other payload.
\<close>

definition releasing_weak ::
  "handle \<Rightarrow> weak_ptr \<Rightarrow> payload_destructor \<Rightarrow> payload_destructor" where
  "releasing_weak owner member nested p h =
     (if p = owner
      then (case WeakPtr_Reset_on nested member h of
              Returned m h' \<Rightarrow> Returned () h'
            | Thrown e h' \<Rightarrow> Thrown e h'
            | Undefined \<Rightarrow> Undefined)
      else nested p h)"

definition releasing_shared ::
  "handle \<Rightarrow> shared_ptr \<Rightarrow> payload_destructor \<Rightarrow> payload_destructor" where
  "releasing_shared owner member nested p h =
     (if p = owner
      then (case SharedPtr_Reset_on nested member h of
              Returned m h' \<Rightarrow> Returned () h'
            | Thrown e h' \<Rightarrow> Thrown e h'
            | Undefined \<Rightarrow> Undefined)
      else nested p h)"

text \<open>
  The destructor of \<open>struct Node { WeakPtr<Node> self; }\<close> for the node at \<open>p\<close> whose
  member \<open>self\<close> holds the node's own control block. A destructor run that starts
  inside this one starts inside \<open>delete block_\<close> of \<open>self.Reset()\<close>: there \<open>obj_\<close> of
  the member has been cleared and \<open>block_\<close> has not, and that is the member the nested
  run destroys. \<open>deeper\<close> is the destructor of whatever is destroyed inside the nested
  run.
\<close>

definition Node_destructor ::
  "handle \<Rightarrow> weak_ptr \<Rightarrow> payload_destructor \<Rightarrow> payload_destructor" where
  "Node_destructor p self deeper =
     releasing_weak p self (releasing_weak p (self\<lparr>wobj := None\<rparr>) deeper)"

text \<open>
  \<open>operator=(SharedPtr&& other)\<close> with the two pointers as the objects they are: both
  are read and written by \<open>Swap\<close>, after \<open>Reset()\<close> has run on the destination. \<open>homes\<close>
  lists the control blocks in whose payloads the destination or the source live: none
  for two variables of their own, the block \<open>a\<close> for a member of the payload of \<open>a\<close> (as
  \<open>head->next\<close> in \<open>head = std::move(head->next)\<close>, where \<open>a\<close> is the block \<open>head\<close>
  holds). When one of these payloads has been destroyed during the \<open>Reset\<close>, the
  pointer in it has been destroyed with it, and \<open>Swap\<close> reads and writes a destroyed
  object.
\<close>

definition destroyed_during :: "heap \<Rightarrow> heap \<Rightarrow> nat \<Rightarrow> bool" where
  "destroyed_during h h' a \<longleftrightarrow>
     a < length h \<and> a < length h' \<and> destroy_calls (h' ! a) \<noteq> destroy_calls (h ! a)"

definition SharedPtr_move_assign_on ::
  "payload_destructor \<Rightarrow> shared_ptr \<Rightarrow> shared_ptr \<Rightarrow> nat list \<Rightarrow> bool \<Rightarrow> heap \<Rightarrow>
   (shared_ptr \<times> shared_ptr, heap) outcome" where
  "SharedPtr_move_assign_on D this other homes same h =
     (if same then Returned (this, other) h
      else (case SharedPtr_Reset_on D this h of
              Returned this' h' \<Rightarrow>
                if list_ex (destroyed_during h h') homes then Undefined
                else Returned (SharedPtr_Swap this' other) h'
            | Thrown e h' \<Rightarrow> Thrown e h'
            | Undefined \<Rightarrow> Undefined))"

text \<open>
  \<open>operator=(UniquePtr&& other)\<close> with the two pointers as the objects they are. The
  call of the deleter in \<open>Reset()\<close> is code of the program; \<open>kills d h\<close> says that the
  call of the deleter \<open>d\<close> on the handle \<open>h\<close> destroys an object in which the destination
  or the source live (as \<open>DefaultDeleter\<close>, which is \<open>delete ptr\<close>, does for
  \<open>head = std::move(head->next)\<close>). Then \<open>Swap\<close> reads and writes a destroyed object:
  the result is \<open>None\<close>.
\<close>

definition UniquePtr_move_assign_on ::
  "('d \<Rightarrow> handle \<Rightarrow> bool) \<Rightarrow> 'd \<Rightarrow> 'd CompressedPair \<Rightarrow> 'd CompressedPair \<Rightarrow> bool \<Rightarrow>
   'd deletions \<Rightarrow> (('d CompressedPair \<times> 'd CompressedPair) \<times> 'd deletions) option" where
  "UniquePtr_move_assign_on kills dflt this other same log =
     (if same then Some ((this, other), log)
      else (case UniquePtr_Reset dflt None this log of
              (this', log') \<Rightarrow>
                (case GetFirst this of
                   None \<Rightarrow> Some (UniquePtr_Swap this' other, log')
                 | Some h \<Rightarrow>
                     if kills (GetSecond this) h then None
                     else Some (UniquePtr_Swap this' other, log'))))"

section \<open>Reference counts and the invariant of reachable worlds\<close>

text \<open>
  \<open>srefs a ps\<close> and \<open>wrefs a ps\<close> count the shared and the weak pointers of a list that
  hold the control block \<open>a\<close>. \<open>payload_present b\<close> says that the block still holds a
  payload it has not destroyed: \<open>ptr_\<close> is not null, or \<open>was_data_deleted_\<close> is false.
\<close>

definition srefs :: "nat \<Rightarrow> shared_ptr list \<Rightarrow> nat" where
  "srefs a ps = length (filter (\<lambda>p. block p = Some a) ps)"

definition wrefs :: "nat \<Rightarrow> weak_ptr list \<Rightarrow> nat" where
  "wrefs a ps = length (filter (\<lambda>p. wblock p = Some a) ps)"

definition payload_present :: "control_block \<Rightarrow> bool" where
  "payload_present b =
     (case body b of PtrControlBlock p \<Rightarrow> p \<noteq> None | MakeSharedControlBlock d \<Rightarrow> \<not> d)"

text \<open>
  The invariant of one block, given the numbers \<open>ns\<close> and \<open>nw\<close> of shared and weak
  pointers that hold it: it was freed at most once and its payload destroyed at most
  once; while it is allocated its counters are those numbers, and a payload it still
  holds has not been destroyed and has an owner; once it is freed no pointer holds it.
  A world is well formed when every block of its heap satisfies this, and no pointer
  holds an address outside the heap.
\<close>

definition block_ok :: "control_block \<Rightarrow> nat \<Rightarrow> nat \<Rightarrow> bool" where
  "block_ok b ns nw \<longleftrightarrow>
     free_calls b \<le> 1 \<and> destroy_calls b \<le> 1 \<and>
     (if free_calls b = 0
      then unat (shared_counter b) = ns \<and> unat (weak_counter b) = nw \<and>
           (payload_present b \<longrightarrow> destroy_calls b = 0 \<and> shared_counter b \<noteq> 0)
      else ns = 0 \<and> nw = 0)"

definition wf :: "world \<Rightarrow> bool" where
  "wf w \<longleftrightarrow>
     (\<forall>a. if a < length (heap w)
          then block_ok (heap w ! a) (srefs a (sptrs w)) (wrefs a (wptrs w))
          else srefs a (sptrs w) = 0 \<and> wrefs a (wptrs w) = 0)"

text \<open>The world an operation leaves behind, when its behaviour is defined.\<close>

definition state_after :: "(unit, world) outcome \<Rightarrow> world option" where
  "state_after r = (case r of Returned u w \<Rightarrow> Some w | Thrown e w \<Rightarrow> Some w | Undefined \<Rightarrow> None)"

text \<open>
  What an operation does to one control block: nothing, one of the two increments, or
  one of the two releases, which decrement and then delete the block when it can be
  deleted (a weak pointer only when its flag allows it).
\<close>

datatype touch = Untouched | IncS | IncW | DecS | DecW bool

fun apply_touch :: "touch \<Rightarrow> control_block \<Rightarrow> control_block" where
  "apply_touch Untouched b = b"
| "apply_touch IncS b = IncrementShared b"
| "apply_touch IncW b = IncrementWeak b"
| "apply_touch DecS b =
     (let b1 = DecrementShared b in if CanBlockBeDeleted b1 then delete_block b1 else b1)"
| "apply_touch (DecW flag) b =
     (let b1 = DecrementWeak b
      in if CanBlockBeDeleted b1 \<and> flag then delete_block b1 else b1)"

fun target :: "operation \<Rightarrow> world \<Rightarrow> (nat \<times> touch) option" where
  "target (CopyShared i) w = map_option (\<lambda>a. (a, IncS)) (block (sptrs w ! i))"
| "target (AliasShared i ptr) w = map_option (\<lambda>a. (a, IncS)) (block (sptrs w ! i))"
| "target (MoveAssignShared i j) w =
     (if i = j then None else map_option (\<lambda>a. (a, DecS)) (block (sptrs w ! i)))"
| "target (ResetShared i) w = map_option (\<lambda>a. (a, DecS)) (block (sptrs w ! i))"
| "target (PromoteWeak i) w =
     (case wblock (wptrs w ! i) of
        None \<Rightarrow> None
      | Some a \<Rightarrow> if shared_counter (heap w ! a) = 0 then None else Some (a, IncS))"
| "target (LockWeak i) w = map_option (\<lambda>a. (a, IncS)) (wblock (wptrs w ! i))"
| "target (WeakOfShared i) w = map_option (\<lambda>a. (a, IncW)) (block (sptrs w ! i))"
| "target (SelfWeak i) w = map_option (\<lambda>a. (a, IncW)) (block (sptrs w ! i))"
| "target (CopyWeak i) w = map_option (\<lambda>a. (a, IncW)) (wblock (wptrs w ! i))"
| "target (ResetWeak i) w =
     map_option (\<lambda>a. (a, DecW (can_i_delete_block (wptrs w ! i)))) (wblock (wptrs w ! i))"
| "target (NewShared ptr) w = None"
| "target (MakeSharedOp t) w = None"
| "target (MoveShared i) w = None"

definition touched :: "operation \<Rightarrow> world \<Rightarrow> nat \<Rightarrow> touch" where
  "touched x w a =
     (if in_scope x w
      then (case target x w of
              None \<Rightarrow> Untouched
            | Some (a', t) \<Rightarrow> if a' = a then t else Untouched)
      else Untouched)"

text \<open>
  \<open>keeps_block x w\<close>: the operation is the \<open>Reset\<close> of a weak pointer whose flag
  \<open>can_i_delete_block_\<close> is false.
\<close>

fun keeps_block :: "operation \<Rightarrow> world \<Rightarrow> bool" where
  "keeps_block (ResetWeak i) w = (i < length (wptrs w) \<and> \<not> can_i_delete_block (wptrs w ! i))"
| "keeps_block (NewShared ptr) w = False"
| "keeps_block (MakeSharedOp t) w = False"
| "keeps_block (CopyShared i) w = False"
| "keeps_block (MoveShared i) w = False"
| "keeps_block (AliasShared i ptr) w = False"
| "keeps_block (MoveAssignShared i j) w = False"
| "keeps_block (ResetShared i) w = False"
| "keeps_block (PromoteWeak i) w = False"
| "keeps_block (LockWeak i) w = False"
| "keeps_block (WeakOfShared i) w = False"
| "keeps_block (CopyWeak i) w = False"
| "keeps_block (SelfWeak i) w = False"

text \<open>
  \<open>owning_op\<close>: every operation but two. \<open>Lock\<close> is left out because on an expired
  pointer it raises the strong count of a block whose payload is gone (claim C4); the
  wrapping of a null handle is left out because its block never has a payload.
  \<open>kept b\<close>: an allocated block with a strong count other than 0 still has its payload.
\<close>

fun owning_op :: "operation \<Rightarrow> bool" where
  "owning_op (LockWeak i) = False"
| "owning_op (NewShared ptr) = (ptr \<noteq> None)"
| "owning_op (MakeSharedOp t) = True"
| "owning_op (CopyShared i) = True"
| "owning_op (MoveShared i) = True"
| "owning_op (AliasShared i ptr) = True"
| "owning_op (MoveAssignShared i j) = True"
| "owning_op (ResetShared i) = True"
| "owning_op (PromoteWeak i) = True"
| "owning_op (WeakOfShared i) = True"
| "owning_op (CopyWeak i) = True"
| "owning_op (SelfWeak i) = True"
| "owning_op (ResetWeak i) = True"

definition kept :: "control_block \<Rightarrow> bool" where
  "kept b \<longleftrightarrow> (free_calls b = 0 \<and> shared_counter b \<noteq> 0 \<longrightarrow> payload_present b)"

text \<open>
  \<open>copies p w\<close>: the number of shared pointers of the world that hold the control block
  of \<open>p\<close>, which are the live copies of \<open>p\<close>, itself included; 0 when \<open>p\<close> holds no block.
\<close>

definition copies :: "shared_ptr \<Rightarrow> world \<Rightarrow> nat" where
  "copies p w = (case block p of None \<Rightarrow> 0 | Some a \<Rightarrow> srefs a (sptrs w))"

text \<open>
  \<open>spares k x\<close>: the operation \<open>x\<close> does not end the ownership of the shared pointer at
  position \<open>k\<close>: it neither resets (or destroys) it, nor moves from it, nor assigns to it.
\<close>

fun spares :: "nat \<Rightarrow> operation \<Rightarrow> bool" where
  "spares k (ResetShared i) = (i \<noteq> k)"
| "spares k (MoveShared i) = (i \<noteq> k)"
| "spares k (MoveAssignShared i j) = (i \<noteq> k \<and> j \<noteq> k)"
| "spares k (NewShared ptr) = True"
| "spares k (MakeSharedOp t) = True"
| "spares k (CopyShared i) = True"
| "spares k (AliasShared i ptr) = True"
| "spares k (PromoteWeak i) = True"
| "spares k (LockWeak i) = True"
| "spares k (WeakOfShared i) = True"
| "spares k (CopyWeak i) = True"
| "spares k (SelfWeak i) = True"
| "spares k (ResetWeak i) = True"

text \<open>
  \<open>src_weak_op\<close>: the operations that the classes of src/weak have, which are all but
  the weak pointer's constructor "For ESFT".
\<close>

fun src_weak_op :: "operation \<Rightarrow> bool" where
  "src_weak_op (SelfWeak i) = False"
| "src_weak_op (NewShared ptr) = True"
| "src_weak_op (MakeSharedOp t) = True"
| "src_weak_op (CopyShared i) = True"
| "src_weak_op (MoveShared i) = True"
| "src_weak_op (AliasShared i ptr) = True"
| "src_weak_op (MoveAssignShared i j) = True"
| "src_weak_op (ResetShared i) = True"
| "src_weak_op (PromoteWeak i) = True"
| "src_weak_op (LockWeak i) = True"
| "src_weak_op (WeakOfShared i) = True"
| "src_weak_op (CopyWeak i) = True"
| "src_weak_op (ResetWeak i) = True"

lemma unat_inc: "unat (c :: 64 word) < 2 ^ 64 - 1 \<Longrightarrow> unat (c + 1) = Suc (unat c)"
  by (simp add: unat_word_ariths)

lemma inc_nonzero: "unat (c :: 64 word) < 2 ^ 64 - 1 \<Longrightarrow> c + 1 \<noteq> 0"
  using unat_inc [of c] by auto

lemma unat_dec: "(c :: 64 word) \<noteq> 0 \<Longrightarrow> unat (c - 1) = unat c - 1"
  by (rule unat_minus_one)

lemma word_dec_zero: "(c - 1 = 0) = (c = (1 :: 64 word))"
  by (metis diff_add_cancel add_0 diff_self)

lemma length_filter_update:
  "i < length xs \<Longrightarrow>
   length (filter P (xs[i := y])) + (if P (xs ! i) then 1 else 0) =
   length (filter P xs) + (if P y then 1 else 0)"
proof (induction xs arbitrary: i)
  case Nil
  then show ?case by simp
next
  case (Cons x xs)
  then show ?case by (cases i) auto
qed

lemma length_filter_pos: "i < length xs \<Longrightarrow> P (xs ! i) \<Longrightarrow> 0 < length (filter P xs)"
  by (metis filter_empty_conv length_greater_0_conv nth_mem)

lemma srefs_Nil [simp]: "srefs a [] = 0"
  by (simp add: srefs_def)

lemma srefs_snoc [simp]: "srefs a (ps @ [q]) = srefs a ps + (if block q = Some a then 1 else 0)"
  by (simp add: srefs_def)

lemma srefs_update:
  "i < length ps \<Longrightarrow>
   srefs a (ps[i := q]) + (if block (ps ! i) = Some a then 1 else 0) =
   srefs a ps + (if block q = Some a then 1 else 0)"
  unfolding srefs_def by (rule length_filter_update)

lemma srefs_le: "srefs a ps \<le> length ps"
  by (simp add: srefs_def)

lemma srefs_pos: "i < length ps \<Longrightarrow> block (ps ! i) = Some a \<Longrightarrow> 0 < srefs a ps"
  unfolding srefs_def by (rule length_filter_pos)

lemma wrefs_Nil [simp]: "wrefs a [] = 0"
  by (simp add: wrefs_def)

lemma wrefs_snoc [simp]: "wrefs a (ps @ [q]) = wrefs a ps + (if wblock q = Some a then 1 else 0)"
  by (simp add: wrefs_def)

lemma wrefs_update:
  "i < length ps \<Longrightarrow>
   wrefs a (ps[i := q]) + (if wblock (ps ! i) = Some a then 1 else 0) =
   wrefs a ps + (if wblock q = Some a then 1 else 0)"
  unfolding wrefs_def by (rule length_filter_update)

lemma wrefs_le: "wrefs a ps \<le> length ps"
  by (simp add: wrefs_def)

lemma wrefs_pos: "i < length ps \<Longrightarrow> wblock (ps ! i) = Some a \<Longrightarrow> 0 < wrefs a ps"
  unfolding wrefs_def by (rule length_filter_pos)

lemma IncrementShared_fields [simp]:
  "shared_counter (IncrementShared b) = shared_counter b + 1"
  "weak_counter (IncrementShared b) = weak_counter b"
  "body (IncrementShared b) = body b"
  "destroy_calls (IncrementShared b) = destroy_calls b"
  "free_calls (IncrementShared b) = free_calls b"
  "payload_present (IncrementShared b) = payload_present b"
  by (simp_all add: IncrementShared_def payload_present_def)

lemma IncrementWeak_fields [simp]:
  "shared_counter (IncrementWeak b) = shared_counter b"
  "weak_counter (IncrementWeak b) = weak_counter b + 1"
  "body (IncrementWeak b) = body b"
  "destroy_calls (IncrementWeak b) = destroy_calls b"
  "free_calls (IncrementWeak b) = free_calls b"
  "payload_present (IncrementWeak b) = payload_present b"
  by (simp_all add: IncrementWeak_def payload_present_def)

lemma DecrementWeak_fields [simp]:
  "shared_counter (DecrementWeak b) = shared_counter b"
  "weak_counter (DecrementWeak b) = weak_counter b - 1"
  "body (DecrementWeak b) = body b"
  "destroy_calls (DecrementWeak b) = destroy_calls b"
  "free_calls (DecrementWeak b) = free_calls b"
  "payload_present (DecrementWeak b) = payload_present b"
  by (simp_all add: DecrementWeak_def payload_present_def)

lemma DeleteData_fields [simp]:
  "shared_counter (DeleteData b) = shared_counter b"
  "weak_counter (DeleteData b) = weak_counter b"
  "free_calls (DeleteData b) = free_calls b"
  "destroy_calls (DeleteData b) = (if payload_present b then Suc (destroy_calls b) else destroy_calls b)"
  "payload_present (DeleteData b) = False"
  by (simp_all add: DeleteData_def payload_present_def split: block_body.splits)

lemma DecrementShared_fields [simp]:
  "shared_counter (DecrementShared b) = shared_counter b - 1"
  "weak_counter (DecrementShared b) = weak_counter b"
  "free_calls (DecrementShared b) = free_calls b"
  "destroy_calls (DecrementShared b) =
     (if shared_counter b = 1 \<and> payload_present b then Suc (destroy_calls b) else destroy_calls b)"
  "payload_present (DecrementShared b) = (payload_present b \<and> shared_counter b \<noteq> 1)"
  by (simp_all add: DecrementShared_def Let_def word_dec_zero DeleteData_def payload_present_def
      split: block_body.splits)

lemma delete_block_fields [simp]:
  "shared_counter (delete_block b) = shared_counter b"
  "weak_counter (delete_block b) = weak_counter b"
  "free_calls (delete_block b) = Suc (free_calls b)"
  "destroy_calls (delete_block b) = (if payload_present b then Suc (destroy_calls b) else destroy_calls b)"
  by (simp_all add: delete_block_def destructor_def Let_def payload_present_def split: block_body.splits)

lemma block_ok_IncrementShared:
  "block_ok b ns nw \<Longrightarrow> free_calls b = 0 \<Longrightarrow> ns < 2 ^ 64 - 1 \<Longrightarrow>
   block_ok (IncrementShared b) (Suc ns) nw"
  by (simp add: block_ok_def unat_inc inc_nonzero)

lemma block_ok_IncrementWeak:
  "block_ok b ns nw \<Longrightarrow> free_calls b = 0 \<Longrightarrow> nw < 2 ^ 64 - 1 \<Longrightarrow>
   block_ok (IncrementWeak b) ns (Suc nw)"
  by (simp add: block_ok_def unat_inc)

lemma block_ok_live: "block_ok b ns nw \<Longrightarrow> 0 < ns \<or> 0 < nw \<Longrightarrow> free_calls b = 0"
  by (auto simp: block_ok_def split: if_splits)

lemma unat_Suc_dec: "unat (c :: 64 word) = Suc n \<Longrightarrow> unat (c - 1) = n"
  by (metis unat_dec diff_Suc_1 unat_0 nat.distinct(1))

lemma unat_Suc_nonzero: "unat (c :: 64 word) = Suc n \<Longrightarrow> c \<noteq> 0"
  by auto

lemma unat_one_iff: "unat (c :: 64 word) = Suc n \<Longrightarrow> (c = 1) = (n = 0)"
  by (metis One_nat_def unat_1 unat_Suc_dec unat_eq_zero word_dec_zero nat.inject)

lemma block_ok_release_shared:
  assumes "block_ok b (Suc ns) nw"
  shows "block_ok (let b1 = DecrementShared b
                   in if CanBlockBeDeleted b1 then delete_block b1 else b1) ns nw"
proof -
  from assms have live: "free_calls b = 0"
    by (rule block_ok_live) simp
  with assms have s: "unat (shared_counter b) = Suc ns" and w: "unat (weak_counter b) = nw"
    and d: "destroy_calls b \<le> 1" and p: "payload_present b \<longrightarrow> destroy_calls b = 0 \<and> shared_counter b \<noteq> 0"
    by (simp_all add: block_ok_def)
  have s': "unat (shared_counter b - 1) = ns"
    using s by (rule unat_Suc_dec)
  show ?thesis
    using live s' w d p unat_one_iff [OF s]
    by (auto simp: block_ok_def Let_def CanBlockBeDeleted_def unat_eq_zero)
qed

lemma block_ok_release_weak:
  assumes "block_ok b ns (Suc nw)"
  shows "block_ok (let b1 = DecrementWeak b
                   in if CanBlockBeDeleted b1 \<and> flag then delete_block b1 else b1) ns nw"
proof -
  from assms have live: "free_calls b = 0"
    by (rule block_ok_live) simp
  with assms have s: "unat (shared_counter b) = ns" and w: "unat (weak_counter b) = Suc nw"
    and d: "destroy_calls b \<le> 1" and p: "payload_present b \<longrightarrow> destroy_calls b = 0 \<and> shared_counter b \<noteq> 0"
    by (simp_all add: block_ok_def)
  have w': "unat (weak_counter b - 1) = nw"
    using w by (rule unat_Suc_dec)
  show ?thesis
    using live s w' d p
    by (auto simp: block_ok_def Let_def CanBlockBeDeleted_def unat_eq_zero)
qed

lemma block_ok_new:
  "block_ok (new_PtrControlBlock ptr) (Suc 0) 0"
  "block_ok new_MakeSharedControlBlock (Suc 0) 0"
  "block_ok (delete_block new_MakeSharedControlBlock) 0 0"
  by (simp_all add: block_ok_def new_PtrControlBlock_def new_MakeSharedControlBlock_def
      payload_present_def)

lemma wfI:
  assumes "\<And>a. a < length (heap w) \<Longrightarrow>
             block_ok (heap w ! a) (srefs a (sptrs w)) (wrefs a (wptrs w))"
    and "\<And>a. \<not> a < length (heap w) \<Longrightarrow> srefs a (sptrs w) = 0 \<and> wrefs a (wptrs w) = 0"
  shows "wf w"
  using assms by (simp add: wf_def)

lemma wf_block:
  "wf w \<Longrightarrow> a < length (heap w) \<Longrightarrow>
   block_ok (heap w ! a) (srefs a (sptrs w)) (wrefs a (wptrs w))"
  unfolding wf_def by (drule spec [of _ a]) simp

lemma wf_outside:
  "wf w \<Longrightarrow> \<not> a < length (heap w) \<Longrightarrow> srefs a (sptrs w) = 0 \<and> wrefs a (wptrs w) = 0"
  unfolding wf_def by (drule spec [of _ a]) simp

lemma wf_shared_live:
  assumes "wf w" "i < length (sptrs w)" "block (sptrs w ! i) = Some a"
  shows "a < length (heap w) \<and> free_calls (heap w ! a) = 0 \<and>
         live_block (heap w) a = Some (heap w ! a) \<and> shared_counter (heap w ! a) \<noteq> 0"
proof -
  have pos: "0 < srefs a (sptrs w)"
    using assms(2,3) by (rule srefs_pos)
  then have a: "a < length (heap w)"
    using wf_outside [OF assms(1), of a] by auto
  have ok: "block_ok (heap w ! a) (srefs a (sptrs w)) (wrefs a (wptrs w))"
    using assms(1) a by (rule wf_block)
  then have live: "free_calls (heap w ! a) = 0"
    using pos by (auto intro: block_ok_live)
  then have "unat (shared_counter (heap w ! a)) = srefs a (sptrs w)"
    using ok by (simp add: block_ok_def)
  then have "shared_counter (heap w ! a) \<noteq> 0"
    using pos by auto
  then show ?thesis
    using a live by (simp add: live_block_def)
qed

lemma wf_weak_live:
  assumes "wf w" "i < length (wptrs w)" "wblock (wptrs w ! i) = Some a"
  shows "a < length (heap w) \<and> free_calls (heap w ! a) = 0 \<and>
         live_block (heap w) a = Some (heap w ! a) \<and> weak_counter (heap w ! a) \<noteq> 0"
proof -
  have pos: "0 < wrefs a (wptrs w)"
    using assms(2,3) by (rule wrefs_pos)
  then have a: "a < length (heap w)"
    using wf_outside [OF assms(1), of a] by auto
  have ok: "block_ok (heap w ! a) (srefs a (sptrs w)) (wrefs a (wptrs w))"
    using assms(1) a by (rule wf_block)
  then have live: "free_calls (heap w ! a) = 0"
    using pos by (auto intro: block_ok_live)
  then have "unat (weak_counter (heap w ! a)) = wrefs a (wptrs w)"
    using ok by (simp add: block_ok_def)
  then have "weak_counter (heap w ! a) \<noteq> 0"
    using pos by auto
  then show ?thesis
    using a live by (simp add: live_block_def)
qed

lemma wf_same_refs:
  assumes "wf w" "heap w' = heap w"
    and "\<And>a. srefs a (sptrs w') = srefs a (sptrs w)"
    and "\<And>a. wrefs a (wptrs w') = wrefs a (wptrs w)"
  shows "wf w'"
  using assms by (simp add: wf_def)

lemma wf_attach_shared:
  assumes "wf w" "a < length (heap w)" "free_calls (heap w ! a) = 0"
    and "length (sptrs w) < 2 ^ 64 - 1"
    and "heap w' = (heap w)[a := IncrementShared (heap w ! a)]"
    and "\<And>a'. srefs a' (sptrs w') = srefs a' (sptrs w) + (if a' = a then 1 else 0)"
    and "\<And>a'. wrefs a' (wptrs w') = wrefs a' (wptrs w)"
  shows "wf w'"
proof (rule wfI)
  fix a' assume "a' < length (heap w')"
  then have a': "a' < length (heap w)" using assms(5) by simp
  have ok: "block_ok (heap w ! a') (srefs a' (sptrs w)) (wrefs a' (wptrs w))"
    using assms(1) a' by (rule wf_block)
  show "block_ok (heap w' ! a') (srefs a' (sptrs w')) (wrefs a' (wptrs w'))"
  proof (cases "a' = a")
    case True
    have "srefs a (sptrs w) < 2 ^ 64 - 1"
      using srefs_le [of a "sptrs w"] assms(4) by simp
    with ok True assms(3) have "block_ok (IncrementShared (heap w ! a))
        (Suc (srefs a (sptrs w))) (wrefs a (wptrs w))"
      by (simp add: block_ok_IncrementShared)
    then show ?thesis using True assms(2,5,6,7) by simp
  next
    case False
    then show ?thesis using ok assms(5,6,7) by simp
  qed
next
  fix a' assume "\<not> a' < length (heap w')"
  then have out: "\<not> a' < length (heap w)" using assms(5) by simp
  then have "a' \<noteq> a" using assms(2) by auto
  then show "srefs a' (sptrs w') = 0 \<and> wrefs a' (wptrs w') = 0"
    using wf_outside [OF assms(1) out] assms(6,7) by simp
qed

lemma wf_attach_weak:
  assumes "wf w" "a < length (heap w)" "free_calls (heap w ! a) = 0"
    and "length (wptrs w) < 2 ^ 64 - 1"
    and "heap w' = (heap w)[a := IncrementWeak (heap w ! a)]"
    and "\<And>a'. srefs a' (sptrs w') = srefs a' (sptrs w)"
    and "\<And>a'. wrefs a' (wptrs w') = wrefs a' (wptrs w) + (if a' = a then 1 else 0)"
  shows "wf w'"
proof (rule wfI)
  fix a' assume "a' < length (heap w')"
  then have a': "a' < length (heap w)" using assms(5) by simp
  have ok: "block_ok (heap w ! a') (srefs a' (sptrs w)) (wrefs a' (wptrs w))"
    using assms(1) a' by (rule wf_block)
  show "block_ok (heap w' ! a') (srefs a' (sptrs w')) (wrefs a' (wptrs w'))"
  proof (cases "a' = a")
    case True
    have "wrefs a (wptrs w) < 2 ^ 64 - 1"
      using wrefs_le [of a "wptrs w"] assms(4) by simp
    with ok True assms(3) have "block_ok (IncrementWeak (heap w ! a))
        (srefs a (sptrs w)) (Suc (wrefs a (wptrs w)))"
      by (simp add: block_ok_IncrementWeak)
    then show ?thesis using True assms(2,5,6,7) by simp
  next
    case False
    then show ?thesis using ok assms(5,6,7) by simp
  qed
next
  fix a' assume "\<not> a' < length (heap w')"
  then have out: "\<not> a' < length (heap w)" using assms(5) by simp
  then have "a' \<noteq> a" using assms(2) by auto
  then show "srefs a' (sptrs w') = 0 \<and> wrefs a' (wptrs w') = 0"
    using wf_outside [OF assms(1) out] assms(6,7) by simp
qed

lemma wf_new_block:
  assumes "wf w" "heap w' = heap w @ [b]" "block_ok b n 0"
    and "\<And>a'. srefs a' (sptrs w') = srefs a' (sptrs w) + (if a' = length (heap w) then n else 0)"
    and "\<And>a'. wrefs a' (wptrs w') = wrefs a' (wptrs w)"
  shows "wf w'"
proof (rule wfI)
  fix a' assume lt: "a' < length (heap w')"
  show "block_ok (heap w' ! a') (srefs a' (sptrs w')) (wrefs a' (wptrs w'))"
  proof (cases "a' = length (heap w)")
    case True
    then show ?thesis
      using wf_outside [OF assms(1), of a'] assms(2,3,4,5) by simp
  next
    case False
    with lt have a': "a' < length (heap w)" using assms(2) by simp
    then show ?thesis
      using wf_block [OF assms(1) a'] False assms(2,4,5) by (simp add: nth_append)
  qed
next
  fix a' assume "\<not> a' < length (heap w')"
  then have out: "\<not> a' < length (heap w)" and "a' \<noteq> length (heap w)"
    using assms(2) by simp_all
  then show "srefs a' (sptrs w') = 0 \<and> wrefs a' (wptrs w') = 0"
    using wf_outside [OF assms(1) out] assms(4,5) by simp
qed

lemma wf_drop_shared:
  assumes "wf w" "a < length (heap w)"
    and "heap w' = (heap w)[a := (let b1 = DecrementShared (heap w ! a)
                                  in if CanBlockBeDeleted b1 then delete_block b1 else b1)]"
    and "\<And>a'. srefs a' (sptrs w') + (if a' = a then 1 else 0) = srefs a' (sptrs w)"
    and "\<And>a'. wrefs a' (wptrs w') = wrefs a' (wptrs w)"
  shows "wf w'"
proof (rule wfI)
  fix a' assume "a' < length (heap w')"
  then have a': "a' < length (heap w)" using assms(3) by simp
  have ok: "block_ok (heap w ! a') (srefs a' (sptrs w)) (wrefs a' (wptrs w))"
    using assms(1) a' by (rule wf_block)
  show "block_ok (heap w' ! a') (srefs a' (sptrs w')) (wrefs a' (wptrs w'))"
  proof (cases "a' = a")
    case True
    have "srefs a (sptrs w) = Suc (srefs a (sptrs w'))"
      using assms(4) [of a] by simp
    with ok True have "block_ok (heap w ! a) (Suc (srefs a (sptrs w'))) (wrefs a (wptrs w'))"
      using assms(5) by simp
    then have "block_ok (let b1 = DecrementShared (heap w ! a)
                         in if CanBlockBeDeleted b1 then delete_block b1 else b1)
                 (srefs a (sptrs w')) (wrefs a (wptrs w'))"
      by (rule block_ok_release_shared)
    then show ?thesis using True assms(2,3) by simp
  next
    case False
    then show ?thesis using ok assms(3,5) assms(4) [of a'] by simp
  qed
next
  fix a' assume "\<not> a' < length (heap w')"
  then have out: "\<not> a' < length (heap w)" using assms(3) by simp
  then have "a' \<noteq> a" using assms(2) by auto
  then show "srefs a' (sptrs w') = 0 \<and> wrefs a' (wptrs w') = 0"
    using wf_outside [OF assms(1) out] assms(5) assms(4) [of a'] by simp
qed

lemma wf_drop_weak:
  assumes "wf w" "a < length (heap w)"
    and "heap w' = (heap w)[a := (let b1 = DecrementWeak (heap w ! a)
                                  in if CanBlockBeDeleted b1 \<and> flag
                                     then delete_block b1 else b1)]"
    and "\<And>a'. srefs a' (sptrs w') = srefs a' (sptrs w)"
    and "\<And>a'. wrefs a' (wptrs w') + (if a' = a then 1 else 0) = wrefs a' (wptrs w)"
  shows "wf w'"
proof (rule wfI)
  fix a' assume "a' < length (heap w')"
  then have a': "a' < length (heap w)" using assms(3) by simp
  have ok: "block_ok (heap w ! a') (srefs a' (sptrs w)) (wrefs a' (wptrs w))"
    using assms(1) a' by (rule wf_block)
  show "block_ok (heap w' ! a') (srefs a' (sptrs w')) (wrefs a' (wptrs w'))"
  proof (cases "a' = a")
    case True
    have "wrefs a (wptrs w) = Suc (wrefs a (wptrs w'))"
      using assms(5) [of a] by simp
    with ok True have "block_ok (heap w ! a) (srefs a (sptrs w')) (Suc (wrefs a (wptrs w')))"
      using assms(4) by simp
    then have "block_ok (let b1 = DecrementWeak (heap w ! a)
                         in if CanBlockBeDeleted b1 \<and> flag then delete_block b1 else b1)
                 (srefs a (sptrs w')) (wrefs a (wptrs w'))"
      by (rule block_ok_release_weak)
    then show ?thesis using True assms(2,3) by simp
  next
    case False
    then show ?thesis using ok assms(3,4) assms(5) [of a'] by simp
  qed
next
  fix a' assume "\<not> a' < length (heap w')"
  then have out: "\<not> a' < length (heap w)" using assms(3) by simp
  then have "a' \<noteq> a" using assms(2) by auto
  then show "srefs a' (sptrs w') = 0 \<and> wrefs a' (wptrs w') = 0"
    using wf_outside [OF assms(1) out] assms(4) assms(5) [of a'] by simp
qed

lemma state_after_simps [simp]:
  "state_after (Returned u w) = Some w"
  "state_after (Thrown e w) = Some w"
  "state_after Undefined = None"
  by (simp_all add: state_after_def)

lemma srefs_update_same:
  "i < length ps \<Longrightarrow> block q = block (ps ! i) \<Longrightarrow> srefs a (ps[i := q]) = srefs a ps"
  using srefs_update [of i ps a q] by simp

lemma srefs_update_drop:
  "i < length ps \<Longrightarrow> block (ps ! i) = Some a \<Longrightarrow> block q = None \<Longrightarrow>
   srefs a' (ps[i := q]) + (if a' = a then 1 else 0) = srefs a' ps"
  using srefs_update [of i ps a' q] by auto

lemma wrefs_update_same:
  "i < length ps \<Longrightarrow> wblock q = wblock (ps ! i) \<Longrightarrow> wrefs a (ps[i := q]) = wrefs a ps"
  using wrefs_update [of i ps a q] by simp

lemma wrefs_update_drop:
  "i < length ps \<Longrightarrow> wblock (ps ! i) = Some a \<Longrightarrow> wblock q = None \<Longrightarrow>
   wrefs a' (ps[i := q]) + (if a' = a then 1 else 0) = wrefs a' ps"
  using wrefs_update [of i ps a' q] by auto

lemma wf_step:
  assumes wf: "wf w" and ls: "length (sptrs w) < 2 ^ 64 - 1" and lw: "length (wptrs w) < 2 ^ 64 - 1"
  shows "\<exists>w'. state_after (step x w) = Some w' \<and> wf w'"
proof (cases "in_scope x w")
  case False
  then show ?thesis using wf by (simp add: step_def)
next
  case scope: True
  show ?thesis
  proof (cases x)
    case (NewShared ptr)
    have "wf (w\<lparr>heap := heap w @ [new_PtrControlBlock ptr],
                sptrs := sptrs w @ [\<lparr>obj = ptr, block = Some (length (heap w))\<rparr>]\<rparr>)"
      by (rule wf_new_block [OF wf _ block_ok_new(1)]) auto
    then show ?thesis
      using NewShared by (simp add: step_def push_shared_def SharedPtr_from_raw_def)
  next
    case (MakeSharedOp t)
    show ?thesis
    proof (cases t)
      case True
      have "wf (w\<lparr>heap := heap w @ [delete_block new_MakeSharedControlBlock]\<rparr>)"
        by (rule wf_new_block [OF wf _ block_ok_new(3)]) auto
      then show ?thesis
        using MakeSharedOp True by (simp add: step_def push_shared_def MakeShared_def Let_def)
    next
      case False
      have "wf (w\<lparr>heap := heap w @ [new_MakeSharedControlBlock],
                  sptrs := sptrs w @ [\<lparr>obj = Some (Storage (length (heap w))),
                                        block = Some (length (heap w))\<rparr>]\<rparr>)"
        by (rule wf_new_block [OF wf _ block_ok_new(2)]) auto
      then show ?thesis
        using MakeSharedOp False by (simp add: step_def push_shared_def MakeShared_def Let_def)
    qed
  next
    case (CopyShared i)
    with scope have i: "i < length (sptrs w)" by simp
    show ?thesis
    proof (cases "block (sptrs w ! i)")
      case None
      have "wf (w\<lparr>sptrs := sptrs w @ [\<lparr>obj = obj (sptrs w ! i), block = None\<rparr>]\<rparr>)"
        by (rule wf_same_refs [OF wf]) auto
      then show ?thesis
        using CopyShared i None by (simp add: step_def push_shared_def SharedPtr_copy_def)
    next
      case (Some a)
      note live = wf_shared_live [OF wf i Some]
      have "wf (w\<lparr>heap := (heap w)[a := IncrementShared (heap w ! a)],
                  sptrs := sptrs w @ [\<lparr>obj = obj (sptrs w ! i), block = Some a\<rparr>]\<rparr>)"
        by (rule wf_attach_shared [OF wf _ _ ls, of a]) (use live in auto)
      then show ?thesis
        using CopyShared i Some live by (simp add: step_def push_shared_def SharedPtr_copy_def)
    qed
  next
    case (MoveShared i)
    with scope have i: "i < length (sptrs w)" by simp
    have "wf (w\<lparr>sptrs := (sptrs w)[i := SharedPtr_default] @ [sptrs w ! i]\<rparr>)"
    proof (rule wf_same_refs [OF wf])
      fix a
      show "srefs a (sptrs (w\<lparr>sptrs := (sptrs w)[i := SharedPtr_default] @ [sptrs w ! i]\<rparr>))
            = srefs a (sptrs w)"
        using srefs_update [OF i, of a SharedPtr_default] by (simp add: SharedPtr_default_def)
    qed simp_all
    then show ?thesis
      using MoveShared i by (simp add: step_def SharedPtr_move_def SharedPtr_Swap_def)
  next
    case (AliasShared i ptr)
    with scope have i: "i < length (sptrs w)" by simp
    show ?thesis
    proof (cases "block (sptrs w ! i)")
      case None
      have "wf (w\<lparr>sptrs := sptrs w @ [\<lparr>obj = ptr, block = None\<rparr>]\<rparr>)"
        by (rule wf_same_refs [OF wf]) auto
      then show ?thesis
        using AliasShared i None by (simp add: step_def push_shared_def SharedPtr_alias_def)
    next
      case (Some a)
      note live = wf_shared_live [OF wf i Some]
      have "wf (w\<lparr>heap := (heap w)[a := IncrementShared (heap w ! a)],
                  sptrs := sptrs w @ [\<lparr>obj = ptr, block = Some a\<rparr>]\<rparr>)"
        by (rule wf_attach_shared [OF wf _ _ ls, of a]) (use live in auto)
      then show ?thesis
        using AliasShared i Some live by (simp add: step_def push_shared_def SharedPtr_alias_def)
    qed
  next
    case (MoveAssignShared i j)
    with scope have i: "i < length (sptrs w)" and j: "j < length (sptrs w)" by simp_all
    show ?thesis
    proof (cases "i = j")
      case True
      have "wf (w\<lparr>heap := heap w, sptrs := (sptrs w)[j := sptrs w ! j]\<rparr>)"
        by (rule wf_same_refs [OF wf]) auto
      then show ?thesis
        using MoveAssignShared True i j by (simp add: step_def SharedPtr_move_assign_def)
    next
      case ne: False
      show ?thesis
      proof (cases "block (sptrs w ! i)")
        case None
        have "wf (w\<lparr>heap := heap w,
                    sptrs := (sptrs w)[j := \<lparr>obj = None, block = None\<rparr>, i := sptrs w ! j]\<rparr>)"
        proof (rule wf_same_refs [OF wf])
          fix a
          have "srefs a ((sptrs w)[j := \<lparr>obj = None, block = None\<rparr>, i := sptrs w ! j])
                + (if block (sptrs w ! i) = Some a then 1 else 0)
                = srefs a ((sptrs w)[j := \<lparr>obj = None, block = None\<rparr>])
                  + (if block (sptrs w ! j) = Some a then 1 else 0)"
            using srefs_update [of i "(sptrs w)[j := \<lparr>obj = None, block = None\<rparr>]" a "sptrs w ! j"]
              i ne by simp
          then show "srefs a (sptrs (w\<lparr>heap := heap w,
                       sptrs := (sptrs w)[j := \<lparr>obj = None, block = None\<rparr>, i := sptrs w ! j]\<rparr>))
                     = srefs a (sptrs w)"
            using srefs_update [OF j, of a "\<lparr>obj = None, block = None\<rparr>"] None by simp
        qed simp_all
        then show ?thesis
          using MoveAssignShared ne None i j
          by (simp add: step_def SharedPtr_move_assign_def SharedPtr_Reset_def SharedPtr_Swap_def)
      next
        case (Some a)
        note live = wf_shared_live [OF wf i Some]
        have "wf (w\<lparr>heap := (heap w)[a := (let b1 = DecrementShared (heap w ! a)
                                             in if CanBlockBeDeleted b1 then delete_block b1 else b1)],
                    sptrs := (sptrs w)[j := \<lparr>obj = None, block = None\<rparr>, i := sptrs w ! j]\<rparr>)"
        proof (rule wf_drop_shared [OF wf, of a])
          fix a'
          have "srefs a' ((sptrs w)[j := \<lparr>obj = None, block = None\<rparr>, i := sptrs w ! j])
                + (if block (sptrs w ! i) = Some a' then 1 else 0)
                = srefs a' ((sptrs w)[j := \<lparr>obj = None, block = None\<rparr>])
                  + (if block (sptrs w ! j) = Some a' then 1 else 0)"
            using srefs_update [of i "(sptrs w)[j := \<lparr>obj = None, block = None\<rparr>]" a' "sptrs w ! j"]
              i ne by simp
          then show "srefs a' (sptrs (w\<lparr>heap := (heap w)[a := (let b1 = DecrementShared (heap w ! a)
                                             in if CanBlockBeDeleted b1 then delete_block b1 else b1)],
                       sptrs := (sptrs w)[j := \<lparr>obj = None, block = None\<rparr>, i := sptrs w ! j]\<rparr>))
                     + (if a' = a then 1 else 0) = srefs a' (sptrs w)"
            using srefs_update [OF j, of a' "\<lparr>obj = None, block = None\<rparr>"] Some by auto
        qed (use live in simp_all)
        then show ?thesis
          using MoveAssignShared ne Some live i j
          by (simp add: step_def SharedPtr_move_assign_def SharedPtr_Reset_def SharedPtr_Swap_def
              Let_def)
      qed
    qed
  next
    case (ResetShared i)
    with scope have i: "i < length (sptrs w)" by simp
    show ?thesis
    proof (cases "block (sptrs w ! i)")
      case None
      have "wf (w\<lparr>heap := heap w, sptrs := (sptrs w)[i := \<lparr>obj = None, block = None\<rparr>]\<rparr>)"
        by (rule wf_same_refs [OF wf]) (use i None in \<open>simp_all add: srefs_update_same\<close>)
      then show ?thesis
        using ResetShared None i by (simp add: step_def SharedPtr_Reset_def)
    next
      case (Some a)
      note live = wf_shared_live [OF wf i Some]
      have "wf (w\<lparr>heap := (heap w)[a := (let b1 = DecrementShared (heap w ! a)
                                           in if CanBlockBeDeleted b1 then delete_block b1 else b1)],
                  sptrs := (sptrs w)[i := \<lparr>obj = None, block = None\<rparr>]\<rparr>)"
        by (rule wf_drop_shared [OF wf, of a])
          (use live i Some in \<open>simp_all add: srefs_update_drop\<close>)
      then show ?thesis
        using ResetShared Some live i by (simp add: step_def SharedPtr_Reset_def Let_def)
    qed
  next
    case (PromoteWeak i)
    with scope have i: "i < length (wptrs w)" by simp
    show ?thesis
    proof (cases "wblock (wptrs w ! i)")
      case None
      have "wf (w\<lparr>sptrs := sptrs w @ [\<lparr>obj = wobj (wptrs w ! i), block = None\<rparr>]\<rparr>)"
        by (rule wf_same_refs [OF wf]) auto
      then show ?thesis
        using PromoteWeak i None by (simp add: step_def push_shared_def SharedPtr_from_weak_def)
    next
      case (Some a)
      note live = wf_weak_live [OF wf i Some]
      have "wf (w\<lparr>heap := (heap w)[a := IncrementShared (heap w ! a)],
                  sptrs := sptrs w @ [\<lparr>obj = wobj (wptrs w ! i), block = Some a\<rparr>]\<rparr>)"
        by (rule wf_attach_shared [OF wf _ _ ls, of a]) (use live in auto)
      moreover have "wf (w\<lparr>heap := heap w\<rparr>)"
        by (rule wf_same_refs [OF wf]) auto
      ultimately show ?thesis
        using PromoteWeak i Some live
        by (simp add: step_def push_shared_def SharedPtr_from_weak_def WeakPtr_Expired_def)
    qed
  next
    case (LockWeak i)
    with scope have i: "i < length (wptrs w)" by simp
    show ?thesis
    proof (cases "wblock (wptrs w ! i)")
      case None
      have "wf (w\<lparr>sptrs := sptrs w @ [\<lparr>obj = wobj (wptrs w ! i), block = None\<rparr>]\<rparr>)"
        by (rule wf_same_refs [OF wf]) auto
      then show ?thesis
        using LockWeak i None
        by (simp add: step_def push_shared_def WeakPtr_Lock_def SharedPtr_from_weak_def)
    next
      case (Some a)
      note live = wf_weak_live [OF wf i Some]
      have "wf (w\<lparr>heap := (heap w)[a := IncrementShared (heap w ! a)],
                  sptrs := sptrs w @ [\<lparr>obj = ob, block = Some a\<rparr>]\<rparr>)" for ob
        by (rule wf_attach_shared [OF wf _ _ ls, of a]) (use live in auto)
      then show ?thesis
        using LockWeak i Some live
        by (simp add: step_def push_shared_def WeakPtr_Lock_def SharedPtr_from_weak_def
            WeakPtr_Expired_def)
    qed
  next
    case (WeakOfShared i)
    with scope have i: "i < length (sptrs w)" by simp
    show ?thesis
    proof (cases "block (sptrs w ! i)")
      case None
      have "wf (w\<lparr>wptrs := wptrs w @ [\<lparr>wobj = obj (sptrs w ! i), wblock = None,
                                        can_i_delete_block = True\<rparr>]\<rparr>)"
        by (rule wf_same_refs [OF wf]) auto
      then show ?thesis
        using WeakOfShared i None by (simp add: step_def push_weak_def WeakPtr_from_shared_def)
    next
      case (Some a)
      note live = wf_shared_live [OF wf i Some]
      have "wf (w\<lparr>heap := (heap w)[a := IncrementWeak (heap w ! a)],
                  wptrs := wptrs w @ [\<lparr>wobj = obj (sptrs w ! i), wblock = Some a,
                                        can_i_delete_block = True\<rparr>]\<rparr>)"
        by (rule wf_attach_weak [OF wf _ _ lw, of a]) (use live in auto)
      then show ?thesis
        using WeakOfShared i Some live
        by (simp add: step_def push_weak_def WeakPtr_from_shared_def)
    qed
  next
    case (CopyWeak i)
    with scope have i: "i < length (wptrs w)" by simp
    show ?thesis
    proof (cases "wblock (wptrs w ! i)")
      case None
      have "wf (w\<lparr>wptrs := wptrs w @ [\<lparr>wobj = wobj (wptrs w ! i), wblock = None,
                                        can_i_delete_block = True\<rparr>]\<rparr>)"
        by (rule wf_same_refs [OF wf]) auto
      then show ?thesis
        using CopyWeak i None by (simp add: step_def push_weak_def WeakPtr_copy_def)
    next
      case (Some a)
      note live = wf_weak_live [OF wf i Some]
      have "wf (w\<lparr>heap := (heap w)[a := IncrementWeak (heap w ! a)],
                  wptrs := wptrs w @ [\<lparr>wobj = wobj (wptrs w ! i), wblock = Some a,
                                        can_i_delete_block = True\<rparr>]\<rparr>)"
        by (rule wf_attach_weak [OF wf _ _ lw, of a]) (use live in auto)
      then show ?thesis
        using CopyWeak i Some live by (simp add: step_def push_weak_def WeakPtr_copy_def)
    qed
  next
    case (SelfWeak i)
    with scope have i: "i < length (sptrs w)" by simp
    show ?thesis
    proof (cases "block (sptrs w ! i)")
      case None
      have "wf (w\<lparr>wptrs := wptrs w @ [\<lparr>wobj = obj (sptrs w ! i), wblock = None,
                                        can_i_delete_block = False\<rparr>]\<rparr>)"
        by (rule wf_same_refs [OF wf]) auto
      then show ?thesis
        using SelfWeak i None by (simp add: step_def push_weak_def WeakPtr_for_ESFT_def)
    next
      case (Some a)
      note live = wf_shared_live [OF wf i Some]
      have "wf (w\<lparr>heap := (heap w)[a := IncrementWeak (heap w ! a)],
                  wptrs := wptrs w @ [\<lparr>wobj = obj (sptrs w ! i), wblock = Some a,
                                        can_i_delete_block = False\<rparr>]\<rparr>)"
        by (rule wf_attach_weak [OF wf _ _ lw, of a]) (use live in auto)
      then show ?thesis
        using SelfWeak i Some live by (simp add: step_def push_weak_def WeakPtr_for_ESFT_def)
    qed
  next
    case (ResetWeak i)
    with scope have i: "i < length (wptrs w)" by simp
    show ?thesis
    proof (cases "wblock (wptrs w ! i)")
      case None
      have "wf (w\<lparr>heap := heap w, wptrs := (wptrs w)[i := (wptrs w ! i)\<lparr>wobj := None\<rparr>]\<rparr>)"
        by (rule wf_same_refs [OF wf]) (use i None in \<open>simp_all add: wrefs_update_same\<close>)
      then show ?thesis
        using ResetWeak None i by (simp add: step_def WeakPtr_Reset_def)
    next
      case (Some a)
      note live = wf_weak_live [OF wf i Some]
      have "wf (w\<lparr>heap := (heap w)[a := (let b1 = DecrementWeak (heap w ! a)
                                           in if CanBlockBeDeleted b1 \<and> can_i_delete_block (wptrs w ! i)
                                              then delete_block b1 else b1)],
                  wptrs := (wptrs w)[i := (wptrs w ! i)\<lparr>wobj := None, wblock := None\<rparr>]\<rparr>)"
        by (rule wf_drop_weak [OF wf, of a])
          (use live i Some in \<open>simp_all add: wrefs_update_drop\<close>)
      then show ?thesis
        using ResetWeak Some live i by (simp add: step_def WeakPtr_Reset_def Let_def)
    qed
  qed
qed


lemma SharedPtr_Reset_result:
  assumes "SharedPtr_Reset this h = Returned this' h'"
  shows "this' = SharedPtr_default \<and> length h' = length h"
  using assms
  by (auto simp: SharedPtr_Reset_def SharedPtr_default_def Let_def split: option.splits)


lemma live_shared:
  "wf w \<Longrightarrow> i < length (sptrs w) \<Longrightarrow> block (sptrs w ! i) = Some a \<Longrightarrow>
   live_block (heap w) a = Some (heap w ! a)"
  using wf_shared_live by blast

lemma live_weak:
  "wf w \<Longrightarrow> i < length (wptrs w) \<Longrightarrow> wblock (wptrs w ! i) = Some a \<Longrightarrow>
   live_block (heap w) a = Some (heap w ! a)"
  using wf_weak_live by blast

lemma step_block:
  assumes "wf w" "state_after (step x w) = Some w'" "a < length (heap w)"
  shows "heap w' ! a = apply_touch (touched x w a) (heap w ! a)"
proof (cases "in_scope x w")
  case False
  then show ?thesis using assms by (simp add: step_def touched_def)
next
  case True
  note live = live_shared [OF assms(1)] live_weak [OF assms(1)]
  show ?thesis
  proof (cases x)
    case (NewShared ptr)
    then show ?thesis using assms True
      by (auto simp: step_def touched_def push_shared_def SharedPtr_from_raw_def nth_append)
  next
    case (MakeSharedOp t)
    then show ?thesis using assms True
      by (cases t) (auto simp: step_def touched_def push_shared_def MakeShared_def Let_def nth_append)
  next
    case (CopyShared i)
    then show ?thesis using assms True live
      by (auto simp: step_def touched_def push_shared_def SharedPtr_copy_def nth_list_update
          split: option.splits)
  next
    case (MoveShared i)
    then show ?thesis using assms True
      by (auto simp: step_def touched_def SharedPtr_move_def SharedPtr_Swap_def)
  next
    case (AliasShared i ptr)
    then show ?thesis using assms True live
      by (auto simp: step_def touched_def push_shared_def SharedPtr_alias_def nth_list_update
          split: option.splits)
  next
    case (MoveAssignShared i j)
    show ?thesis
    proof (cases "i = j")
      case same: True
      then show ?thesis using MoveAssignShared assms True
        by (auto simp: step_def touched_def SharedPtr_move_assign_def)
    next
      case False
      then show ?thesis using MoveAssignShared assms True live
        by (auto simp: step_def touched_def SharedPtr_move_assign_def SharedPtr_Reset_def
            SharedPtr_Swap_def nth_list_update Let_def split: option.splits)
    qed
  next
    case (ResetShared i)
    then show ?thesis using assms True live
      by (auto simp: step_def touched_def SharedPtr_Reset_def nth_list_update Let_def
          split: option.splits)
  next
    case (PromoteWeak i)
    then show ?thesis using assms True live
      by (auto simp: step_def touched_def push_shared_def SharedPtr_from_weak_def
          WeakPtr_Expired_def GetSharedCount_def nth_list_update split: option.splits)
  next
    case (LockWeak i)
    then show ?thesis using assms True live
      by (auto simp: step_def touched_def push_shared_def WeakPtr_Lock_def SharedPtr_from_weak_def
          WeakPtr_Expired_def GetSharedCount_def nth_list_update split: option.splits if_splits)
  next
    case (WeakOfShared i)
    then show ?thesis using assms True live
      by (auto simp: step_def touched_def push_weak_def WeakPtr_from_shared_def nth_list_update
          split: option.splits)
  next
    case (CopyWeak i)
    then show ?thesis using assms True live
      by (auto simp: step_def touched_def push_weak_def WeakPtr_copy_def nth_list_update
          split: option.splits)
  next
    case (SelfWeak i)
    then show ?thesis using assms True live
      by (auto simp: step_def touched_def push_weak_def WeakPtr_for_ESFT_def nth_list_update
          split: option.splits)
  next
    case (ResetWeak i)
    then show ?thesis using assms True live
      by (auto simp: step_def touched_def WeakPtr_Reset_def nth_list_update Let_def
          split: option.splits)
  qed
qed

lemma step_lengths:
  assumes "state_after (step x w) = Some w'"
  shows "length (sptrs w) \<le> length (sptrs w') \<and> length (sptrs w') \<le> Suc (length (sptrs w)) \<and>
         length (wptrs w) \<le> length (wptrs w') \<and> length (wptrs w') \<le> Suc (length (wptrs w)) \<and>
         length (heap w) \<le> length (heap w')"
proof (cases "in_scope x w")
  case False
  then show ?thesis using assms by (simp add: step_def)
next
  case True
  show ?thesis
  proof (cases x)
    case (NewShared ptr)
    then show ?thesis using assms True
      by (auto simp: step_def push_shared_def SharedPtr_from_raw_def)
  next
    case (MakeSharedOp t)
    then show ?thesis using assms True
      by (cases t) (auto simp: step_def push_shared_def MakeShared_def Let_def)
  next
    case (CopyShared i)
    then show ?thesis using assms True
      by (auto simp: step_def push_shared_def SharedPtr_copy_def split: option.splits)
  next
    case (MoveShared i)
    then show ?thesis using assms True
      by (auto simp: step_def SharedPtr_move_def SharedPtr_Swap_def)
  next
    case (AliasShared i ptr)
    then show ?thesis using assms True
      by (auto simp: step_def push_shared_def SharedPtr_alias_def split: option.splits)
  next
    case (MoveAssignShared i j)
    then show ?thesis using assms True
      by (cases "i = j")
        (auto simp: step_def SharedPtr_move_assign_def SharedPtr_Reset_def SharedPtr_Swap_def
          Let_def split: option.splits)
  next
    case (ResetShared i)
    then show ?thesis using assms True
      by (auto simp: step_def SharedPtr_Reset_def Let_def split: option.splits)
  next
    case (PromoteWeak i)
    then show ?thesis using assms True
      by (auto simp: step_def push_shared_def SharedPtr_from_weak_def split: option.splits if_splits)
  next
    case (LockWeak i)
    then show ?thesis using assms True
      by (auto simp: step_def push_shared_def WeakPtr_Lock_def SharedPtr_from_weak_def
          split: option.splits if_splits)
  next
    case (WeakOfShared i)
    then show ?thesis using assms True
      by (auto simp: step_def push_weak_def WeakPtr_from_shared_def split: option.splits)
  next
    case (CopyWeak i)
    then show ?thesis using assms True
      by (auto simp: step_def push_weak_def WeakPtr_copy_def split: option.splits)
  next
    case (SelfWeak i)
    then show ?thesis using assms True
      by (auto simp: step_def push_weak_def WeakPtr_for_ESFT_def split: option.splits)
  next
    case (ResetWeak i)
    then show ?thesis using assms True
      by (auto simp: step_def WeakPtr_Reset_def Let_def split: option.splits)
  qed
qed

lemma run_Cons_after:
  "run (x # xs) w = (case state_after (step x w) of None \<Rightarrow> None | Some w' \<Rightarrow> run xs w')"
  by (simp add: state_after_def split: outcome.splits)

lemma wf_empty: "wf empty_world"
  by (simp add: wf_def empty_world_def)

lemma run_wf:
  assumes "wf w" "length (sptrs w) + length xs < 2 ^ 64 - 1"
    and "length (wptrs w) + length xs < 2 ^ 64 - 1"
  shows "\<exists>w'. run xs w = Some w' \<and> wf w' \<and>
              length (sptrs w') \<le> length (sptrs w) + length xs \<and>
              length (wptrs w') \<le> length (wptrs w) + length xs"
  using assms
proof (induction xs arbitrary: w)
  case Nil
  then show ?case by simp
next
  case (Cons x xs)
  from Cons.prems have ls: "length (sptrs w) < 2 ^ 64 - 1" and lw: "length (wptrs w) < 2 ^ 64 - 1"
    by simp_all
  from wf_step [OF Cons.prems(1) ls lw, of x]
  obtain w1 where w1: "state_after (step x w) = Some w1" and wf1: "wf w1"
    by blast
  note len = step_lengths [OF w1]
  have "length (sptrs w1) + length xs < 2 ^ 64 - 1" "length (wptrs w1) + length xs < 2 ^ 64 - 1"
    using len Cons.prems(2,3) by simp_all
  from Cons.IH [OF wf1 this]
  obtain w' where "run xs w1 = Some w'" "wf w'"
    "length (sptrs w') \<le> length (sptrs w1) + length xs"
    "length (wptrs w') \<le> length (wptrs w1) + length xs"
    by blast
  then show ?case
    using w1 len by (simp add: run_Cons_after del: run.simps)
qed

lemma reachable_wf:
  assumes "run xs empty_world = Some w" "length xs < 2 ^ 64 - 1"
  shows "wf w \<and> length (sptrs w) < 2 ^ 64 - 1 \<and> length (wptrs w) < 2 ^ 64 - 1"
  using run_wf [OF wf_empty, of xs] assms by (auto simp: empty_world_def)

lemma touched_live:
  assumes "wf w" "touched x w a = t" "t \<noteq> Untouched"
  shows "a < length (heap w) \<and> free_calls (heap w ! a) = 0 \<and>
         (t = DecS \<longrightarrow> shared_counter (heap w ! a) \<noteq> 0) \<and>
         (\<forall>f. t = DecW f \<longrightarrow> weak_counter (heap w ! a) \<noteq> 0 \<and> keeps_block x w = (\<not> f)) \<and>
         (t = IncS \<or> t = IncW \<or> t = DecS \<longrightarrow> \<not> keeps_block x w)"
proof (cases "in_scope x w")
  case False
  then show ?thesis using assms by (simp add: touched_def)
next
  case True
  note ls = wf_shared_live [OF assms(1)] and lw = wf_weak_live [OF assms(1)]
  show ?thesis
  proof (cases x)
    case (CopyShared i)
    then show ?thesis using assms True ls [of i a]
      by (auto simp: touched_def split: option.splits if_splits)
  next
    case (AliasShared i ptr)
    then show ?thesis using assms True ls [of i a]
      by (auto simp: touched_def split: option.splits if_splits)
  next
    case (MoveAssignShared i j)
    then show ?thesis using assms True ls [of i a]
      by (auto simp: touched_def split: option.splits if_splits)
  next
    case (ResetShared i)
    then show ?thesis using assms True ls [of i a]
      by (auto simp: touched_def split: option.splits if_splits)
  next
    case (PromoteWeak i)
    then show ?thesis using assms True lw [of i a]
      by (auto simp: touched_def split: option.splits if_splits)
  next
    case (LockWeak i)
    then show ?thesis using assms True lw [of i a]
      by (auto simp: touched_def split: option.splits if_splits)
  next
    case (WeakOfShared i)
    then show ?thesis using assms True ls [of i a]
      by (auto simp: touched_def split: option.splits if_splits)
  next
    case (CopyWeak i)
    then show ?thesis using assms True lw [of i a]
      by (auto simp: touched_def split: option.splits if_splits)
  next
    case (SelfWeak i)
    then show ?thesis using assms True ls [of i a]
      by (auto simp: touched_def split: option.splits if_splits)
  next
    case (ResetWeak i)
    then show ?thesis using assms True lw [of i a]
      by (auto simp: touched_def split: option.splits if_splits)
  qed (use assms True in \<open>simp_all add: touched_def\<close>)
qed

lemma freed_by_touch:
  assumes ok: "block_ok b ns nw" and n: "ns < 2 ^ 64 - 1" "nw < 2 ^ 64 - 1"
    and live: "t \<noteq> Untouched \<longrightarrow> free_calls b = 0"
    and s: "t = DecS \<longrightarrow> shared_counter b \<noteq> 0"
    and w: "\<forall>f. t = DecW f \<longrightarrow> weak_counter b \<noteq> 0 \<and> k = (\<not> f)"
    and k: "t = IncS \<or> t = IncW \<or> t = DecS \<longrightarrow> \<not> k"
  shows "(free_calls (apply_touch t b) = Suc (free_calls b) \<longleftrightarrow>
            shared_counter (apply_touch t b) = 0 \<and> weak_counter (apply_touch t b) = 0 \<and>
            \<not> (shared_counter b = 0 \<and> weak_counter b = 0) \<and> \<not> k) \<and>
         (free_calls (apply_touch t b) \<noteq> Suc (free_calls b) \<longrightarrow>
            free_calls (apply_touch t b) = free_calls b)"
proof (cases t)
  case Untouched
  then show ?thesis by simp
next
  case IncS
  then have "unat (shared_counter b) < 2 ^ 64 - 1"
    using ok n live by (simp add: block_ok_def)
  then have "shared_counter b + 1 \<noteq> 0" by (rule inc_nonzero)
  then show ?thesis using IncS by simp
next
  case IncW
  then have "unat (weak_counter b) < 2 ^ 64 - 1"
    using ok n live by (simp add: block_ok_def)
  then have "weak_counter b + 1 \<noteq> 0" by (rule inc_nonzero)
  then show ?thesis using IncW by simp
next
  case DecS
  then show ?thesis using s k by (auto simp: Let_def CanBlockBeDeleted_def)
next
  case (DecW f)
  then show ?thesis using w by (auto simp: Let_def CanBlockBeDeleted_def)
qed

lemma step_heap_length:
  assumes "state_after (step x w) = Some w'"
  shows "length (heap w') = (case x of NewShared ptr \<Rightarrow> Suc (length (heap w))
                             | MakeSharedOp t \<Rightarrow> Suc (length (heap w))
                             | _ \<Rightarrow> length (heap w)) \<or> \<not> in_scope x w"
proof (cases "in_scope x w")
  case False
  then show ?thesis using assms by (simp add: step_def)
next
  case True
  show ?thesis
  proof (cases x)
    case (NewShared ptr)
    then show ?thesis using assms True
      by (auto simp: step_def push_shared_def SharedPtr_from_raw_def length_append)
  next
    case (MakeSharedOp t)
    then show ?thesis using assms True
      by (cases t) (auto simp: step_def push_shared_def MakeShared_def Let_def length_append)
  next
    case (CopyShared i)
    then show ?thesis using assms True
      by (auto simp: step_def push_shared_def SharedPtr_copy_def split: option.splits)
  next
    case (MoveShared i)
    then show ?thesis using assms True
      by (auto simp: step_def SharedPtr_move_def SharedPtr_Swap_def)
  next
    case (AliasShared i ptr)
    then show ?thesis using assms True
      by (auto simp: step_def push_shared_def SharedPtr_alias_def split: option.splits)
  next
    case (MoveAssignShared i j)
    then show ?thesis using assms True
      by (cases "i = j")
        (auto simp: step_def SharedPtr_move_assign_def SharedPtr_Reset_def SharedPtr_Swap_def
          Let_def split: option.splits)
  next
    case (ResetShared i)
    then show ?thesis using assms True
      by (auto simp: step_def SharedPtr_Reset_def Let_def split: option.splits)
  next
    case (PromoteWeak i)
    then show ?thesis using assms True
      by (auto simp: step_def push_shared_def SharedPtr_from_weak_def split: option.splits if_splits)
  next
    case (LockWeak i)
    then show ?thesis using assms True
      by (auto simp: step_def push_shared_def WeakPtr_Lock_def SharedPtr_from_weak_def
          split: option.splits if_splits)
  next
    case (WeakOfShared i)
    then show ?thesis using assms True
      by (auto simp: step_def push_weak_def WeakPtr_from_shared_def split: option.splits)
  next
    case (CopyWeak i)
    then show ?thesis using assms True
      by (auto simp: step_def push_weak_def WeakPtr_copy_def split: option.splits)
  next
    case (SelfWeak i)
    then show ?thesis using assms True
      by (auto simp: step_def push_weak_def WeakPtr_for_ESFT_def split: option.splits)
  next
    case (ResetWeak i)
    then show ?thesis using assms True
      by (auto simp: step_def WeakPtr_Reset_def Let_def split: option.splits)
  qed
qed


lemma step_new_block:
  assumes "state_after (step x w) = Some w'" "a < length (heap w')" "\<not> a < length (heap w)"
  shows "(case x of
            NewShared ptr \<Rightarrow> heap w' ! a = new_PtrControlBlock ptr
          | MakeSharedOp t \<Rightarrow>
              heap w' ! a = (if t then delete_block new_MakeSharedControlBlock
                             else new_MakeSharedControlBlock)
          | _ \<Rightarrow> False)"
proof (cases "in_scope x w")
  case False
  then show ?thesis using assms by (simp add: step_def)
next
  case True
  show ?thesis
  proof (cases x)
    case (NewShared ptr)
    then show ?thesis using assms True
      by (auto simp: step_def push_shared_def SharedPtr_from_raw_def nth_append)
  next
    case (MakeSharedOp t)
    then show ?thesis using assms True
      by (cases t) (auto simp: step_def push_shared_def MakeShared_def Let_def nth_append)
  qed (use step_heap_length [OF assms(1)] assms(2,3) True in simp_all)
qed

lemma kept_new:
  "kept (new_PtrControlBlock (Some h))"
  "kept new_MakeSharedControlBlock"
  "kept (delete_block new_MakeSharedControlBlock)"
  by (simp_all add: kept_def new_PtrControlBlock_def new_MakeSharedControlBlock_def
      payload_present_def)

lemma touched_IncS:
  assumes "wf w" "touched x w a = IncS" "owning_op x"
  shows "shared_counter (heap w ! a) \<noteq> 0"
proof (cases "in_scope x w")
  case False
  then show ?thesis using assms by (simp add: touched_def)
next
  case True
  note ls = wf_shared_live [OF assms(1)]
  show ?thesis
  proof (cases x)
    case (CopyShared i)
    then show ?thesis using assms True ls [of i a]
      by (auto simp: touched_def split: option.splits if_splits)
  next
    case (AliasShared i ptr)
    then show ?thesis using assms True ls [of i a]
      by (auto simp: touched_def split: option.splits if_splits)
  next
    case (PromoteWeak i)
    then show ?thesis using assms True
      by (auto simp: touched_def split: option.splits if_splits)
  qed (use assms True in \<open>auto simp: touched_def split: option.splits if_splits\<close>)
qed

lemma destroyed_by_touch:
  assumes ok: "block_ok b ns nw" and kept: "kept b"
    and live: "t \<noteq> Untouched \<longrightarrow> free_calls b = 0"
    and s: "t = DecS \<or> t = IncS \<longrightarrow> shared_counter b \<noteq> 0"
  shows "(destroy_calls (apply_touch t b) = Suc (destroy_calls b) \<longleftrightarrow>
            shared_counter b = 1 \<and> shared_counter (apply_touch t b) = 0) \<and>
         (destroy_calls (apply_touch t b) \<noteq> Suc (destroy_calls b) \<longrightarrow>
            destroy_calls (apply_touch t b) = destroy_calls b) \<and>
         kept (apply_touch t b)"
proof (cases t)
  case Untouched
  then show ?thesis using kept by simp
next
  case IncS
  then show ?thesis using kept live s by (auto simp: kept_def)
next
  case IncW
  then show ?thesis using kept live by (auto simp: kept_def)
next
  case DecS
  then show ?thesis using kept live s
    by (auto simp: kept_def Let_def CanBlockBeDeleted_def word_dec_zero)
next
  case (DecW f)
  have "payload_present b \<longrightarrow> shared_counter b \<noteq> 0"
    using ok live DecW by (simp add: block_ok_def)
  then show ?thesis using DecW kept live
    by (auto simp: kept_def Let_def CanBlockBeDeleted_def)
qed

lemma kept_step:
  assumes wf: "wf w" and kept: "list_all kept (heap w)" and op: "owning_op x"
    and w': "state_after (step x w) = Some w'"
  shows "list_all kept (heap w')"
  unfolding list_all_length
proof (intro allI impI)
  fix a assume a': "a < length (heap w')"
  show "kept (heap w' ! a)"
  proof (cases "a < length (heap w)")
    case True
    have blk: "heap w' ! a = apply_touch (touched x w a) (heap w ! a)"
      using wf w' True by (rule step_block)
    have ok: "block_ok (heap w ! a) (srefs a (sptrs w)) (wrefs a (wptrs w))"
      using wf True by (rule wf_block)
    have k: "kept (heap w ! a)"
      using kept True by (simp add: list_all_length)
    note live = touched_live [OF wf refl, of x a]
    have "kept (apply_touch (touched x w a) (heap w ! a))"
      using destroyed_by_touch [OF ok k, of "touched x w a"] live touched_IncS [OF wf _ op, of a]
      by auto
    then show ?thesis using blk by simp
  next
    case False
    from step_new_block [OF w' a' False] op show ?thesis
      by (cases x) (auto simp: kept_new split: if_splits)
  qed
qed

lemma kept_run:
  assumes "wf w" "list_all kept (heap w)" "list_all owning_op xs"
    and "length (sptrs w) + length xs < 2 ^ 64 - 1"
    and "length (wptrs w) + length xs < 2 ^ 64 - 1"
    and "run xs w = Some w'"
  shows "list_all kept (heap w')"
  using assms
proof (induction xs arbitrary: w)
  case Nil
  then show ?case by simp
next
  case (Cons x xs)
  from Cons.prems have ls: "length (sptrs w) < 2 ^ 64 - 1" and lw: "length (wptrs w) < 2 ^ 64 - 1"
    by simp_all
  from wf_step [OF Cons.prems(1) ls lw, of x]
  obtain w1 where w1: "state_after (step x w) = Some w1" and wf1: "wf w1"
    by blast
  note len = step_lengths [OF w1]
  have k1: "list_all kept (heap w1)"
    using Cons.prems(1,2) _ w1 by (rule kept_step) (use Cons.prems(3) in simp)
  have "run xs w1 = Some w'"
    using Cons.prems(6) w1 by (simp add: run_Cons_after del: run.simps)
  with Cons.IH [OF wf1 k1] Cons.prems(3,4,5) len show ?case
    by simp
qed

lemmas model_defs =
  step_def empty_world_def push_shared_def push_weak_def SharedPtr_from_raw_def MakeShared_def
  SharedPtr_copy_def SharedPtr_alias_def SharedPtr_move_def SharedPtr_Swap_def
  SharedPtr_move_assign_def SharedPtr_Reset_def SharedPtr_from_weak_def SharedPtr_default_def
  SharedPtr_UseCount_def SharedPtr_Get_def SharedPtr_bool_def
  WeakPtr_from_shared_def WeakPtr_copy_def WeakPtr_for_ESFT_def WeakPtr_Reset_def
  WeakPtr_Expired_def WeakPtr_Lock_def WeakPtr_default_def
  new_PtrControlBlock_def new_MakeSharedControlBlock_def IncrementShared_def IncrementWeak_def
  DecrementShared_def DecrementWeak_def DeleteData_def CanBlockBeDeleted_def GetSharedCount_def
  delete_block_def destructor_def live_block_def Let_def

lemma step_CopyShared_result:
  assumes "wf w" "i < length (sptrs w)"
  shows "step (CopyShared i) w =
           Returned ()
             (w\<lparr>heap := (case block (sptrs w ! i) of
                           None \<Rightarrow> heap w
                         | Some a \<Rightarrow> (heap w)[a := IncrementShared (heap w ! a)]),
                sptrs := sptrs w @ [\<lparr>obj = obj (sptrs w ! i), block = block (sptrs w ! i)\<rparr>]\<rparr>)"
  using assms live_shared [OF assms]
  by (cases "block (sptrs w ! i)") (simp_all add: step_def push_shared_def SharedPtr_copy_def)

lemma step_AliasShared_result:
  assumes "wf w" "i < length (sptrs w)"
  shows "step (AliasShared i ptr) w =
           Returned ()
             (w\<lparr>heap := (case block (sptrs w ! i) of
                           None \<Rightarrow> heap w
                         | Some a \<Rightarrow> (heap w)[a := IncrementShared (heap w ! a)]),
                sptrs := sptrs w @ [\<lparr>obj = ptr, block = block (sptrs w ! i)\<rparr>]\<rparr>)"
  using assms live_shared [OF assms]
  by (cases "block (sptrs w ! i)") (simp_all add: step_def push_shared_def SharedPtr_alias_def)

lemma step_ResetShared_result:
  assumes "wf w" "i < length (sptrs w)"
  shows "step (ResetShared i) w =
           Returned ()
             (w\<lparr>heap := (case block (sptrs w ! i) of
                           None \<Rightarrow> heap w
                         | Some a \<Rightarrow> (heap w)[a := apply_touch DecS (heap w ! a)]),
                sptrs := (sptrs w)[i := \<lparr>obj = None, block = None\<rparr>]\<rparr>)"
  using assms live_shared [OF assms]
  by (cases "block (sptrs w ! i)") (simp_all add: step_def SharedPtr_Reset_def Let_def)

lemma use_count_wf:
  assumes "wf w" "i < length (sptrs w)"
  shows "SharedPtr_UseCount (sptrs w ! i) (heap w) =
           Some (case block (sptrs w ! i) of None \<Rightarrow> 0 | Some a \<Rightarrow> shared_counter (heap w ! a)) \<and>
         unat (case block (sptrs w ! i) of None \<Rightarrow> 0 | Some a \<Rightarrow> shared_counter (heap w ! a)) =
           copies (sptrs w ! i) w"
proof (cases "block (sptrs w ! i)")
  case None
  then show ?thesis by (simp add: SharedPtr_UseCount_def copies_def)
next
  case (Some a)
  note live = wf_shared_live [OF assms Some]
  then have "block_ok (heap w ! a) (srefs a (sptrs w)) (wrefs a (wptrs w))"
    using wf_block [OF assms(1)] by simp
  then show ?thesis
    using Some live by (simp add: SharedPtr_UseCount_def copies_def GetSharedCount_def block_ok_def)
qed

lemma use_count_after_copy:
  assumes wf: "wf w" and ls: "length (sptrs w) < 2 ^ 64 - 1" and lw: "length (wptrs w) < 2 ^ 64 - 1"
    and i: "i < length (sptrs w)" and blk: "block (sptrs w ! i) = Some a"
  shows "\<exists>w' c c'. step (CopyShared i) w = Returned () w' \<and>
           length (sptrs w') = Suc (length (sptrs w)) \<and>
           block (sptrs w' ! length (sptrs w)) = block (sptrs w ! i) \<and>
           obj (sptrs w' ! length (sptrs w)) = obj (sptrs w ! i) \<and>
           sptrs w' ! i = sptrs w ! i \<and>
           SharedPtr_UseCount (sptrs w ! i) (heap w) = Some c \<and>
           SharedPtr_UseCount (sptrs w' ! i) (heap w') = Some c' \<and>
           SharedPtr_UseCount (sptrs w' ! length (sptrs w)) (heap w') = Some c' \<and>
           c' = c + 1 \<and> unat c' = Suc (unat c) \<and>
           copies (sptrs w' ! i) w' = Suc (copies (sptrs w ! i) w)"
proof -
  define w' where "w' = w\<lparr>heap := (heap w)[a := IncrementShared (heap w ! a)],
                         sptrs := sptrs w @ [\<lparr>obj = obj (sptrs w ! i), block = Some a\<rparr>]\<rparr>"
  have st: "step (CopyShared i) w = Returned () w'"
    using step_CopyShared_result [OF wf i] blk by (simp add: w'_def)
  have wf': "wf w'"
    using wf_step [OF wf ls lw, of "CopyShared i"] st by simp
  note live = wf_shared_live [OF wf i blk]
  have i': "i < length (sptrs w')" and n': "length (sptrs w) < length (sptrs w')"
    using i by (simp_all add: w'_def)
  have same: "sptrs w' ! i = sptrs w ! i"
    using i by (simp add: w'_def nth_append)
  have new: "sptrs w' ! length (sptrs w) = \<lparr>obj = obj (sptrs w ! i), block = Some a\<rparr>"
    by (simp add: w'_def)
  have h': "heap w' ! a = IncrementShared (heap w ! a)"
    using live by (simp add: w'_def)
  have cp: "copies (sptrs w' ! i) w' = Suc (copies (sptrs w ! i) w)"
    using same blk by (simp add: copies_def) (simp add: w'_def)
  note u = use_count_wf [OF wf i] use_count_wf [OF wf' i'] use_count_wf [OF wf' n']
  show ?thesis
    using st same new h' cp u blk by (simp add: w'_def)
qed

lemma use_count_after_reset:
  assumes wf: "wf w" and ls: "length (sptrs w) < 2 ^ 64 - 1" and lw: "length (wptrs w) < 2 ^ 64 - 1"
    and i: "i < length (sptrs w)"
  shows "\<exists>w'. step (ResetShared i) w = Returned () w' \<and>
           SharedPtr_UseCount (sptrs w' ! i) (heap w') = Some 0 \<and>
           (\<forall>j a. j < length (sptrs w) \<and> j \<noteq> i \<and> block (sptrs w ! j) = Some a \<and>
                  block (sptrs w ! i) = Some a \<longrightarrow>
              (\<exists>c c'. sptrs w' ! j = sptrs w ! j \<and>
                 SharedPtr_UseCount (sptrs w ! j) (heap w) = Some c \<and>
                 SharedPtr_UseCount (sptrs w' ! j) (heap w') = Some c' \<and>
                 c' = c - 1 \<and> Suc (unat c') = unat c \<and>
                 Suc (copies (sptrs w' ! j) w') = copies (sptrs w ! j) w))"
proof -
  define w' where "w' = w\<lparr>heap := (case block (sptrs w ! i) of
                           None \<Rightarrow> heap w
                         | Some a \<Rightarrow> (heap w)[a := apply_touch DecS (heap w ! a)]),
                sptrs := (sptrs w)[i := \<lparr>obj = None, block = None\<rparr>]\<rparr>"
  have st: "step (ResetShared i) w = Returned () w'"
    using step_ResetShared_result [OF wf i] by (simp add: w'_def)
  have wf': "wf w'"
    using wf_step [OF wf ls lw, of "ResetShared i"] st by simp
  have zero: "SharedPtr_UseCount (sptrs w' ! i) (heap w') = Some 0"
    using i by (simp add: w'_def SharedPtr_UseCount_def)
  have others: "\<exists>c c'. sptrs w' ! j = sptrs w ! j \<and>
                 SharedPtr_UseCount (sptrs w ! j) (heap w) = Some c \<and>
                 SharedPtr_UseCount (sptrs w' ! j) (heap w') = Some c' \<and>
                 c' = c - 1 \<and> Suc (unat c') = unat c \<and>
                 Suc (copies (sptrs w' ! j) w') = copies (sptrs w ! j) w"
    if j: "j < length (sptrs w)" "j \<noteq> i" "block (sptrs w ! j) = Some a"
      "block (sptrs w ! i) = Some a" for j a
  proof -
    note live = wf_shared_live [OF wf i that(4)]
    have j': "j < length (sptrs w')" using j(1) by (simp add: w'_def)
    have same: "sptrs w' ! j = sptrs w ! j"
      using j by (simp add: w'_def)
    have h': "shared_counter (heap w' ! a) = shared_counter (heap w ! a) - 1"
      using live j(4) by (simp add: w'_def Let_def)
    have "srefs a (sptrs w') + 1 = srefs a (sptrs w)"
      using srefs_update_drop [OF i j(4), of "\<lparr>obj = None, block = None\<rparr>" a]
      by (simp add: w'_def)
    then have cp: "Suc (copies (sptrs w' ! j) w') = copies (sptrs w ! j) w"
      using same j(3) by (simp add: copies_def)
    note u = use_count_wf [OF wf j(1)] use_count_wf [OF wf' j']
    show ?thesis
      using same h' cp u j(3) by simp
  qed
  show ?thesis
    using st zero others by blast
qed

lemma step_sptrs_nth:
  assumes "state_after (step x w) = Some w'" "spares k x" "k < length (sptrs w)"
  shows "sptrs w' ! k = sptrs w ! k"
proof (cases "in_scope x w")
  case False
  then show ?thesis using assms by (simp add: step_def)
next
  case True
  show ?thesis
  proof (cases x)
    case (NewShared ptr)
    then show ?thesis using assms True
      by (auto simp: step_def push_shared_def SharedPtr_from_raw_def nth_append)
  next
    case (MakeSharedOp t)
    then show ?thesis using assms True
      by (cases t) (auto simp: step_def push_shared_def MakeShared_def Let_def nth_append)
  next
    case (CopyShared i)
    then show ?thesis using assms True
      by (auto simp: step_def push_shared_def SharedPtr_copy_def nth_append split: option.splits)
  next
    case (MoveShared i)
    then show ?thesis using assms True
      by (auto simp: step_def SharedPtr_move_def SharedPtr_Swap_def nth_append)
  next
    case (AliasShared i ptr)
    then show ?thesis using assms True
      by (auto simp: step_def push_shared_def SharedPtr_alias_def nth_append split: option.splits)
  next
    case (MoveAssignShared i j)
    then show ?thesis using assms True
      by (cases "i = j")
        (auto simp: step_def SharedPtr_move_assign_def SharedPtr_Reset_def SharedPtr_Swap_def
          Let_def split: option.splits)
  next
    case (ResetShared i)
    then show ?thesis using assms True
      by (auto simp: step_def SharedPtr_Reset_def Let_def split: option.splits)
  next
    case (PromoteWeak i)
    then show ?thesis using assms True
      by (auto simp: step_def push_shared_def SharedPtr_from_weak_def nth_append
          split: option.splits if_splits)
  next
    case (LockWeak i)
    then show ?thesis using assms True
      by (auto simp: step_def push_shared_def WeakPtr_Lock_def SharedPtr_from_weak_def nth_append
          split: option.splits if_splits)
  next
    case (WeakOfShared i)
    then show ?thesis using assms True
      by (auto simp: step_def push_weak_def WeakPtr_from_shared_def split: option.splits)
  next
    case (CopyWeak i)
    then show ?thesis using assms True
      by (auto simp: step_def push_weak_def WeakPtr_copy_def split: option.splits)
  next
    case (SelfWeak i)
    then show ?thesis using assms True
      by (auto simp: step_def push_weak_def WeakPtr_for_ESFT_def split: option.splits)
  next
    case (ResetWeak i)
    then show ?thesis using assms True
      by (auto simp: step_def WeakPtr_Reset_def Let_def split: option.splits)
  qed
qed

lemma srefs_two:
  assumes "i < length ps" "k < length ps" "i \<noteq> k"
    and "block (ps ! i) = Some a" "block (ps ! k) = Some a"
  shows "2 \<le> srefs a ps"
proof -
  have "srefs a (ps[i := SharedPtr_default]) + 1 = srefs a ps"
    using srefs_update [OF assms(1), of a SharedPtr_default] assms(4)
    by (simp add: SharedPtr_default_def)
  moreover have "0 < srefs a (ps[i := SharedPtr_default])"
    by (rule srefs_pos [of k]) (use assms in simp_all)
  ultimately show ?thesis by simp
qed

lemma touched_DecS_other:
  assumes "wf w" "touched x w a = DecS" "spares k x" "k < length (sptrs w)"
    and "block (sptrs w ! k) = Some a"
  shows "shared_counter (heap w ! a) \<noteq> 0 \<and> shared_counter (heap w ! a) \<noteq> 1"
proof -
  have ex: "\<exists>i. i < length (sptrs w) \<and> i \<noteq> k \<and> block (sptrs w ! i) = Some a"
  proof (cases x)
    case (MoveAssignShared i j)
    then show ?thesis using assms(2,3)
      by (auto simp: touched_def split: if_splits option.splits)
  next
    case (ResetShared i)
    then show ?thesis using assms(2,3)
      by (auto simp: touched_def split: if_splits option.splits)
  qed (use assms(2) in \<open>auto simp: touched_def split: if_splits option.splits\<close>)
  then obtain i where i: "i < length (sptrs w)" "i \<noteq> k" "block (sptrs w ! i) = Some a"
    by blast
  have two: "2 \<le> srefs a (sptrs w)"
    using i(1) assms(4) i(2,3) assms(5) by (rule srefs_two)
  note live = wf_shared_live [OF assms(1,4,5)]
  then have "block_ok (heap w ! a) (srefs a (sptrs w)) (wrefs a (wptrs w))"
    using wf_block [OF assms(1)] by simp
  then have "unat (shared_counter (heap w ! a)) = srefs a (sptrs w)"
    using live by (simp add: block_ok_def)
  with two show ?thesis by auto
qed

lemma reachable_bounds:
  assumes "run xs empty_world = Some w" "length xs < 2 ^ 64 - 1"
  shows "wf w \<and> length (sptrs w) \<le> length xs \<and> length (wptrs w) \<le> length xs"
  using run_wf [OF wf_empty, of xs] assms by (auto simp: empty_world_def)

lemma keep_by_touch:
  assumes "free_calls b = 0" "shared_counter b \<noteq> 0"
    and "t = DecS \<longrightarrow> shared_counter b \<noteq> 1"
  shows "body (apply_touch t b) = body b \<and> destroy_calls (apply_touch t b) = destroy_calls b \<and>
         free_calls (apply_touch t b) = 0"
proof (cases t)
  case DecS
  then have "DecrementShared b = b\<lparr>shared_counter := shared_counter b - 1\<rparr>"
    using assms(3) by (simp add: DecrementShared_def Let_def word_dec_zero)
  then show ?thesis
    using DecS assms by (simp add: Let_def CanBlockBeDeleted_def word_dec_zero)
next
  case (DecW f)
  then show ?thesis using assms by (simp add: Let_def CanBlockBeDeleted_def)
qed (use assms in simp_all)

lemma step_keeps_owner:
  assumes wf: "wf w" and k: "k < length (sptrs w)" "block (sptrs w ! k) = Some a"
    and sp: "spares k x" and w': "state_after (step x w) = Some w'"
  shows "sptrs w' ! k = sptrs w ! k \<and> body (heap w' ! a) = body (heap w ! a) \<and>
         destroy_calls (heap w' ! a) = destroy_calls (heap w ! a) \<and>
         free_calls (heap w' ! a) = 0"
proof -
  note live = wf_shared_live [OF wf k]
  have blk: "heap w' ! a = apply_touch (touched x w a) (heap w ! a)"
    using wf w' by (rule step_block) (use live in simp)
  have "touched x w a = DecS \<longrightarrow> shared_counter (heap w ! a) \<noteq> 1"
    using touched_DecS_other [OF wf _ sp k] by blast
  with live have "body (apply_touch (touched x w a) (heap w ! a)) = body (heap w ! a) \<and>
      destroy_calls (apply_touch (touched x w a) (heap w ! a)) = destroy_calls (heap w ! a) \<and>
      free_calls (apply_touch (touched x w a) (heap w ! a)) = 0"
    by (intro keep_by_touch) simp_all
  then show ?thesis
    using blk step_sptrs_nth [OF w' sp k(1)] by simp
qed

lemma run_keeps_owner:
  assumes "wf w" "k < length (sptrs w)" "block (sptrs w ! k) = Some a" "list_all (spares k) ys"
    and "length (sptrs w) + length ys < 2 ^ 64 - 1"
    and "length (wptrs w) + length ys < 2 ^ 64 - 1"
  shows "\<exists>w'. run ys w = Some w' \<and> sptrs w' ! k = sptrs w ! k \<and>
           body (heap w' ! a) = body (heap w ! a) \<and>
           destroy_calls (heap w' ! a) = destroy_calls (heap w ! a) \<and>
           free_calls (heap w' ! a) = 0"
  using assms
proof (induction ys arbitrary: w)
  case Nil
  then show ?case using wf_shared_live [of w k a] by simp
next
  case (Cons x ys)
  from Cons.prems have ls: "length (sptrs w) < 2 ^ 64 - 1" and lw: "length (wptrs w) < 2 ^ 64 - 1"
    by simp_all
  from wf_step [OF Cons.prems(1) ls lw, of x]
  obtain w1 where w1: "state_after (step x w) = Some w1" and wf1: "wf w1"
    by blast
  note len = step_lengths [OF w1]
  have sp: "spares k x" and sps: "list_all (spares k) ys"
    using Cons.prems(4) by simp_all
  note keep = step_keeps_owner [OF Cons.prems(1,2,3) sp w1]
  have k1: "k < length (sptrs w1)" "block (sptrs w1 ! k) = Some a"
    using len Cons.prems(2,3) keep by simp_all
  have "length (sptrs w1) + length ys < 2 ^ 64 - 1" "length (wptrs w1) + length ys < 2 ^ 64 - 1"
    using len Cons.prems(5,6) by simp_all
  from Cons.IH [OF wf1 k1 sps this]
  obtain w' where "run ys w1 = Some w'" "sptrs w' ! k = sptrs w1 ! k"
    "body (heap w' ! a) = body (heap w1 ! a)"
    "destroy_calls (heap w' ! a) = destroy_calls (heap w1 ! a)"
    "free_calls (heap w' ! a) = 0"
    by blast
  then show ?case
    using w1 keep by (simp add: run_Cons_after del: run.simps)
qed

lemma destroyed_only_by_touch:
  assumes ok: "block_ok b ns nw" and live: "t \<noteq> Untouched \<longrightarrow> free_calls b = 0"
  shows "(destroy_calls (apply_touch t b) = Suc (destroy_calls b) \<longrightarrow>
            shared_counter b = 1 \<and> shared_counter (apply_touch t b) = 0) \<and>
         (destroy_calls (apply_touch t b) \<noteq> Suc (destroy_calls b) \<longrightarrow>
            destroy_calls (apply_touch t b) = destroy_calls b)"
proof (cases t)
  case DecS
  then show ?thesis by (auto simp: Let_def CanBlockBeDeleted_def word_dec_zero)
next
  case (DecW f)
  have "payload_present b \<longrightarrow> shared_counter b \<noteq> 0"
    using ok live DecW by (simp add: block_ok_def)
  then show ?thesis using DecW by (auto simp: Let_def CanBlockBeDeleted_def)
qed simp_all

lemma Lock_never_throws: "WeakPtr_Lock this h \<noteq> Thrown e h'"
  by (simp add: WeakPtr_Lock_def SharedPtr_from_weak_def split: option.splits)

lemma Lock_of_live_pointer:
  assumes "wblock this = Some a" "live_block h a = Some b" "shared_counter b \<noteq> 0"
  shows "WeakPtr_Expired this h = Some False \<and>
         WeakPtr_Lock this h =
           Returned \<lparr>obj = wobj this, block = Some a\<rparr> (h[a := IncrementShared b])"
  using assms
  by (simp add: WeakPtr_Lock_def SharedPtr_from_weak_def WeakPtr_Expired_def GetSharedCount_def)

lemma Lock_of_unattached_pointer:
  assumes "wblock this = None"
  shows "WeakPtr_Expired this h = Some True \<and>
         WeakPtr_Lock this h = Returned \<lparr>obj = wobj this, block = None\<rparr> h"
  using assms by (simp add: WeakPtr_Lock_def SharedPtr_from_weak_def WeakPtr_Expired_def)

lemma strict_promotion_with_block:
  assumes "wblock other = Some a" "live_block h a = Some b"
  shows "SharedPtr_from_weak other False h =
           (if shared_counter b = 0 then Thrown BadWeakPtr h
            else Returned \<lparr>obj = wobj other, block = Some a\<rparr> (h[a := IncrementShared b]))"
  using assms by (simp add: SharedPtr_from_weak_def WeakPtr_Expired_def GetSharedCount_def)

lemma only_strict_promotion_throws_BadWeakPtr:
  assumes "step x w = Thrown BadWeakPtr w'"
  shows "(case x of PromoteWeak i \<Rightarrow> w' = w | _ \<Rightarrow> False)"
proof (cases "in_scope x w")
  case False
  then show ?thesis using assms by (simp add: step_def)
next
  case True
  show ?thesis
  proof (cases x)
    case (NewShared ptr)
    then show ?thesis using assms True
      by (simp add: step_def push_shared_def SharedPtr_from_raw_def)
  next
    case (MakeSharedOp t)
    then show ?thesis using assms True
      by (cases t) (simp_all add: step_def push_shared_def MakeShared_def Let_def)
  next
    case (CopyShared i)
    then show ?thesis using assms True
      by (simp add: step_def push_shared_def SharedPtr_copy_def split: option.splits)
  next
    case (MoveShared i)
    then show ?thesis using assms True
      by (simp add: step_def SharedPtr_move_def SharedPtr_Swap_def)
  next
    case (AliasShared i ptr)
    then show ?thesis using assms True
      by (simp add: step_def push_shared_def SharedPtr_alias_def split: option.splits)
  next
    case (MoveAssignShared i j)
    then show ?thesis using assms True
      by (cases "i = j")
        (simp_all add: step_def SharedPtr_move_assign_def SharedPtr_Reset_def SharedPtr_Swap_def
          Let_def split: option.splits)
  next
    case (ResetShared i)
    then show ?thesis using assms True
      by (simp add: step_def SharedPtr_Reset_def Let_def split: option.splits)
  next
    case (PromoteWeak i)
    then show ?thesis using assms True
      by (auto simp: step_def push_shared_def SharedPtr_from_weak_def
          split: option.splits if_splits)
  next
    case (LockWeak i)
    then show ?thesis using assms True
      by (simp add: step_def push_shared_def WeakPtr_Lock_def SharedPtr_from_weak_def
          split: option.splits if_splits)
  next
    case (WeakOfShared i)
    then show ?thesis using assms True
      by (simp add: step_def push_weak_def WeakPtr_from_shared_def split: option.splits)
  next
    case (CopyWeak i)
    then show ?thesis using assms True
      by (simp add: step_def push_weak_def WeakPtr_copy_def split: option.splits)
  next
    case (SelfWeak i)
    then show ?thesis using assms True
      by (simp add: step_def push_weak_def WeakPtr_for_ESFT_def split: option.splits)
  next
    case (ResetWeak i)
    then show ?thesis using assms True
      by (simp add: step_def WeakPtr_Reset_def Let_def split: option.splits)
  qed
qed

lemma WeakPtr_Reset_weak_agrees:
  "can_i_delete_block this \<Longrightarrow> WeakPtr_Reset this h = WeakPtr_Reset_weak this h"
  by (simp add: WeakPtr_Reset_def WeakPtr_Reset_weak_def split: option.splits)

lemma list_all_update: "list_all P xs \<Longrightarrow> P y \<Longrightarrow> list_all P (xs[i := y])"
  by (cases "i < length xs") (auto simp: list_all_length nth_list_update)

lemma step_keeps_flags:
  assumes "list_all can_i_delete_block (wptrs w)" "state_after (step x w) = Some w'"
    and "src_weak_op x"
  shows "list_all can_i_delete_block (wptrs w')"
proof (cases "in_scope x w")
  case False
  then show ?thesis using assms by (simp add: step_def)
next
  case True
  show ?thesis
  proof (cases x)
    case (NewShared ptr)
    then show ?thesis using assms True
      by (auto simp: step_def push_shared_def SharedPtr_from_raw_def)
  next
    case (MakeSharedOp t)
    then show ?thesis using assms True
      by (cases t) (auto simp: step_def push_shared_def MakeShared_def Let_def)
  next
    case (CopyShared i)
    then show ?thesis using assms True
      by (auto simp: step_def push_shared_def SharedPtr_copy_def split: option.splits)
  next
    case (MoveShared i)
    then show ?thesis using assms True
      by (auto simp: step_def SharedPtr_move_def SharedPtr_Swap_def)
  next
    case (AliasShared i ptr)
    then show ?thesis using assms True
      by (auto simp: step_def push_shared_def SharedPtr_alias_def split: option.splits)
  next
    case (MoveAssignShared i j)
    then show ?thesis using assms True
      by (cases "i = j")
        (auto simp: step_def SharedPtr_move_assign_def SharedPtr_Reset_def SharedPtr_Swap_def
          Let_def split: option.splits)
  next
    case (ResetShared i)
    then show ?thesis using assms True
      by (auto simp: step_def SharedPtr_Reset_def Let_def split: option.splits)
  next
    case (PromoteWeak i)
    then show ?thesis using assms True
      by (auto simp: step_def push_shared_def SharedPtr_from_weak_def
          split: option.splits if_splits)
  next
    case (LockWeak i)
    then show ?thesis using assms True
      by (auto simp: step_def push_shared_def WeakPtr_Lock_def SharedPtr_from_weak_def
          split: option.splits if_splits)
  next
    case (WeakOfShared i)
    then show ?thesis using assms True
      by (auto simp: step_def push_weak_def WeakPtr_from_shared_def split: option.splits)
  next
    case (CopyWeak i)
    then show ?thesis using assms True
      by (auto simp: step_def push_weak_def WeakPtr_copy_def split: option.splits)
  next
    case (SelfWeak i)
    then show ?thesis using assms by simp
  next
    case (ResetWeak i)
    then have "can_i_delete_block (wptrs w ! i)"
      using assms(1) True by (simp add: list_all_length)
    then show ?thesis using ResetWeak assms True
      by (auto simp: step_def WeakPtr_Reset_def Let_def list_all_update split: option.splits)
  qed
qed

lemma run_keeps_flags:
  assumes "list_all can_i_delete_block (wptrs w)" "run xs w = Some w'"
    and "list_all src_weak_op xs"
  shows "list_all can_i_delete_block (wptrs w')"
  using assms
proof (induction xs arbitrary: w)
  case Nil
  then show ?case by simp
next
  case (Cons x xs)
  from Cons.prems(2) obtain w1 where w1: "state_after (step x w) = Some w1"
    and r: "run xs w1 = Some w'"
    by (auto simp: run_Cons_after simp del: run.simps split: option.splits)
  have "list_all can_i_delete_block (wptrs w1)"
    using Cons.prems(1) w1 by (rule step_keeps_flags) (use Cons.prems(3) in simp)
  then show ?case
    using r Cons.prems(3) by (intro Cons.IH) simp_all
qed

lemma weak_pointers_of_src_weak_free_their_block:
  assumes "run xs empty_world = Some w"
    and "list_all src_weak_op xs"
  shows "\<not> keeps_block x w"
proof -
  have "list_all can_i_delete_block (wptrs w)"
    using _ assms by (rule run_keeps_flags) (simp add: empty_world_def)
  then show ?thesis
    by (cases x) (simp_all add: list_all_length)
qed

section \<open>The functions with a destructor parameter, for an inert destructor\<close>

lemma and_then_simps:
  "and_then (Returned u h) f = f h"
  "and_then (Thrown e h) f = Thrown e h"
  "and_then Undefined f = Undefined"
  by (simp_all add: and_then_def)

lemma live_block_eq: "live_block h a = Some b \<Longrightarrow> a < length h \<and> b = h ! a \<and> free_calls b = 0"
  by (auto simp: live_block_def split: if_splits)

lemma live_block_update:
  "a < length h \<Longrightarrow> live_block (h[a := b]) a = (if free_calls b = 0 then Some b else None)"
  by (simp add: live_block_def)

lemma write_block_live:
  "live_block h a = Some b \<Longrightarrow> write_block a f h = Returned () (h[a := f b])"
  by (simp add: write_block_def)

lemma update_destroy_calls_body:
  "(b :: control_block)\<lparr>destroy_calls := n, body := x\<rparr> = b\<lparr>body := x, destroy_calls := n\<rparr>"
  by (cases b) simp

lemma DeleteData_on_inert:
  assumes "live_block h a = Some b"
  shows "DeleteData_on inert a h = Returned () (h[a := DeleteData b])"
proof -
  from live_block_eq [OF assms] have a: "a < length h" and b: "h ! a = b" and f: "free_calls b = 0"
    by auto
  have same: "h[a := b] = h"
    unfolding b [symmetric] by simp
  show ?thesis
  proof (cases "body b")
    case (PtrControlBlock ptr)
    then show ?thesis
      using assms a f same
      by (cases ptr)
        (simp_all add: DeleteData_on_def DeleteData_def destroy_payload_def write_block_def
          and_then_simps inert_def live_block_update update_destroy_calls_body)
  next
    case (MakeSharedControlBlock d)
    then show ?thesis
      using assms a f same
      by (cases d)
        (simp_all add: DeleteData_on_def DeleteData_def destroy_payload_def write_block_def
          and_then_simps inert_def live_block_update update_destroy_calls_body)
  qed
qed

lemma DeleteData_free_calls: "free_calls (DeleteData b) = free_calls b"
  by (simp add: DeleteData_def split: block_body.splits)

lemma DecrementShared_on_inert:
  assumes "live_block h a = Some b"
  shows "DecrementShared_on inert a h = Returned () (h[a := DecrementShared b])"
proof -
  from live_block_eq [OF assms] have a: "a < length h" and f: "free_calls b = 0"
    by auto
  define b' where "b' = b\<lparr>shared_counter := shared_counter b - 1\<rparr>"
  have l: "live_block (h[a := b']) a = Some b'"
    using a f by (simp add: live_block_update b'_def)
  have w: "write_block a (\<lambda>b. b\<lparr>shared_counter := shared_counter b - 1\<rparr>) h =
             Returned () (h[a := b'])"
    using assms by (simp add: write_block_def b'_def)
  have d: "DecrementShared b = (if shared_counter b' = 0 then DeleteData b' else b')"
    by (simp add: DecrementShared_def Let_def b'_def)
  show ?thesis
    using l DeleteData_on_inert [OF l] a
    by (simp add: DecrementShared_on_def w d and_then_simps)
qed

lemma destructor_on_inert:
  assumes "live_block h a = Some b"
  shows "destructor_on inert a h = Returned () (h[a := destructor b])"
proof -
  from live_block_eq [OF assms] have a: "a < length h" and b: "h ! a = b" and f: "free_calls b = 0"
    by auto
  have same: "h[a := b] = h"
    unfolding b [symmetric] by simp
  show ?thesis
  proof (cases "body b")
    case (PtrControlBlock ptr)
    then show ?thesis
      using assms DeleteData_on_inert [OF assms]
      by (simp add: destructor_on_def destructor_def)
  next
    case (MakeSharedControlBlock d)
    then show ?thesis
      using assms a f same
      by (cases d)
        (simp_all add: destructor_on_def destructor_def destroy_payload_def write_block_def
          and_then_simps inert_def)
  qed
qed

lemma destructor_free_calls: "free_calls (destructor b) = free_calls b"
  by (simp add: destructor_def DeleteData_free_calls split: block_body.splits)

lemma delete_on_inert:
  assumes "live_block h a = Some b"
  shows "delete_on inert a h = Returned () (h[a := delete_block b])"
proof -
  from live_block_eq [OF assms] have a: "a < length h" and f: "free_calls b = 0"
    by auto
  have "live_block (h[a := destructor b]) a = Some (destructor b)"
    using a f by (simp add: live_block_update destructor_free_calls)
  then show ?thesis
    using destructor_on_inert [OF assms]
    by (simp add: delete_on_def delete_block_def write_block_def and_then_simps Let_def)
qed

lemma DecrementShared_free_calls: "free_calls (DecrementShared b) = free_calls b"
  by (simp add: DecrementShared_def Let_def DeleteData_free_calls)

lemma SharedPtr_Reset_on_inert: "SharedPtr_Reset_on inert this h = SharedPtr_Reset this h"
proof (cases "block this")
  case None
  then show ?thesis by (simp add: SharedPtr_Reset_on_def SharedPtr_Reset_def)
next
  case (Some a)
  show ?thesis
  proof (cases "live_block h a")
    case None
    then show ?thesis
      using Some
      by (simp add: SharedPtr_Reset_on_def SharedPtr_Reset_def DecrementShared_on_def
          write_block_def and_then_simps)
  next
    case (Some b)
    from live_block_eq [OF Some] have a: "a < length h" and f: "free_calls b = 0"
      by auto
    have l: "live_block (h[a := DecrementShared b]) a = Some (DecrementShared b)"
      using a f by (simp add: live_block_update DecrementShared_free_calls)
    show ?thesis
      using \<open>block this = Some a\<close> Some l DecrementShared_on_inert [OF Some] delete_on_inert [OF l]
      by (simp add: SharedPtr_Reset_on_def SharedPtr_Reset_def and_then_simps Let_def)
  qed
qed

lemma DecrementWeak_free_calls: "free_calls (DecrementWeak b) = free_calls b"
  by (simp add: DecrementWeak_def)

lemma WeakPtr_Reset_on_inert: "WeakPtr_Reset_on inert this h = WeakPtr_Reset this h"
proof (cases "wblock this")
  case None
  then show ?thesis by (simp add: WeakPtr_Reset_on_def WeakPtr_Reset_def)
next
  case (Some a)
  show ?thesis
  proof (cases "live_block h a")
    case None
    then show ?thesis
      using Some
      by (simp add: WeakPtr_Reset_on_def WeakPtr_Reset_def write_block_def and_then_simps)
  next
    case (Some b)
    from live_block_eq [OF Some] have a: "a < length h" and f: "free_calls b = 0"
      by auto
    have l: "live_block (h[a := DecrementWeak b]) a = Some (DecrementWeak b)"
      using a f by (simp add: live_block_update DecrementWeak_free_calls)
    show ?thesis
      using \<open>wblock this = Some a\<close> Some l delete_on_inert [OF l]
      by (simp add: WeakPtr_Reset_on_def WeakPtr_Reset_def write_block_def and_then_simps Let_def)
  qed
qed

lemma WeakPtr_Reset_weak_on_agrees:
  "can_i_delete_block this \<Longrightarrow> WeakPtr_Reset_on D this h = WeakPtr_Reset_weak_on D this h"
  by (cases "wblock this")
    (simp_all add: WeakPtr_Reset_on_def WeakPtr_Reset_weak_on_def cong: option.case_cong)

lemma WeakPtr_Reset_weak_on_inert:
  "WeakPtr_Reset_weak_on inert this h = WeakPtr_Reset_weak this h"
proof (cases "wblock this")
  case None
  then show ?thesis by (simp add: WeakPtr_Reset_weak_on_def WeakPtr_Reset_weak_def)
next
  case (Some a)
  show ?thesis
  proof (cases "live_block h a")
    case None
    then show ?thesis
      using Some
      by (simp add: WeakPtr_Reset_weak_on_def WeakPtr_Reset_weak_def write_block_def and_then_simps)
  next
    case (Some b)
    from live_block_eq [OF Some] have a: "a < length h" and f: "free_calls b = 0"
      by auto
    have l: "live_block (h[a := DecrementWeak b]) a = Some (DecrementWeak b)"
      using a f by (simp add: live_block_update DecrementWeak_free_calls)
    show ?thesis
      using \<open>wblock this = Some a\<close> Some l delete_on_inert [OF l]
      by (simp add: WeakPtr_Reset_weak_on_def WeakPtr_Reset_weak_def write_block_def
          and_then_simps Let_def)
  qed
qed

lemma SharedPtr_move_assign_on_inert:
  "SharedPtr_move_assign_on inert this other [] same h = SharedPtr_move_assign this other same h"
  by (simp add: SharedPtr_move_assign_on_def SharedPtr_move_assign_def SharedPtr_Reset_on_inert
      split: outcome.splits)

lemma UniquePtr_move_assign_on_apart:
  "UniquePtr_move_assign_on (\<lambda>d h. False) dflt this other same log =
     Some (UniquePtr_move_assign dflt this other same log)"
  by (simp add: UniquePtr_move_assign_on_def UniquePtr_move_assign_def split: prod.splits option.splits)



lemmas on_defs = SharedPtr_Reset_on_def DecrementShared_on_def DeleteData_on_def
  destroy_payload_def write_block_def and_then_def live_block_def Node_destructor_def
  releasing_weak_def releasing_shared_def inert_def WeakPtr_Reset_on_def
  WeakPtr_Reset_weak_on_def delete_on_def destructor_on_def DecrementWeak_def
  CanBlockBeDeleted_def SharedPtr_move_assign_on_def destroyed_during_def SharedPtr_Swap_def

section \<open>Programs whose payloads hold no pointer\<close>

text \<open>
  The programs over pointer variables have payloads whose destructors touch no control
  block. For every such program \<open>xs\<close>, every next operation \<open>x\<close> and every block \<open>a\<close> of
  the world reached: \<open>x\<close> has defined behaviour, it leaves at most one destructor call
  on \<open>a\<close>, and it adds a destructor call only if it takes the strong count of \<open>a\<close> from
  1 to 0. Conversely, when neither \<open>xs\<close> nor \<open>x\<close> uses \<open>Lock\<close> or wraps a null handle
  (see \<open>owning_op\<close>), taking the strong count from 1 to 0 does add the destructor call.
  None of this carries over to a payload that holds a pointer (claim C1).
\<close>

lemma payload_destroyed_once_when_strong_count_reaches_zero:
  assumes "run xs empty_world = Some w" and "length xs < 2 ^ 64 - 1" and "a < length (heap w)"
  shows "\<exists>w'. state_after (step x w) = Some w' \<and>
           destroy_calls (heap w' ! a) \<le> 1 \<and>
           (destroy_calls (heap w' ! a) = Suc (destroy_calls (heap w ! a)) \<longrightarrow>
              shared_counter (heap w ! a) = 1 \<and> shared_counter (heap w' ! a) = 0) \<and>
           (destroy_calls (heap w' ! a) \<noteq> Suc (destroy_calls (heap w ! a)) \<longrightarrow>
              destroy_calls (heap w' ! a) = destroy_calls (heap w ! a)) \<and>
           (list_all owning_op xs \<and> owning_op x \<and>
            shared_counter (heap w ! a) = 1 \<and> shared_counter (heap w' ! a) = 0 \<longrightarrow>
              destroy_calls (heap w' ! a) = Suc (destroy_calls (heap w ! a)))"
proof -
  from reachable_wf [OF assms(1,2)]
  have wf: "wf w" and ls: "length (sptrs w) < 2 ^ 64 - 1" and lw: "length (wptrs w) < 2 ^ 64 - 1"
    by simp_all
  from wf_step [OF wf ls lw, of x]
  obtain w' where w': "state_after (step x w) = Some w'" and wf': "wf w'"
    by blast
  have a': "a < length (heap w')"
    using step_lengths [OF w'] assms(3) by simp
  have once: "destroy_calls (heap w' ! a) \<le> 1"
    using wf_block [OF wf' a'] by (simp add: block_ok_def)
  have blk: "heap w' ! a = apply_touch (touched x w a) (heap w ! a)"
    using wf w' assms(3) by (rule step_block)
  have ok: "block_ok (heap w ! a) (srefs a (sptrs w)) (wrefs a (wptrs w))"
    using wf assms(3) by (rule wf_block)
  note live = touched_live [OF wf refl, of x a]
  have only: "(destroy_calls (apply_touch (touched x w a) (heap w ! a)) =
                 Suc (destroy_calls (heap w ! a)) \<longrightarrow>
            shared_counter (heap w ! a) = 1 \<and>
            shared_counter (apply_touch (touched x w a) (heap w ! a)) = 0) \<and>
         (destroy_calls (apply_touch (touched x w a) (heap w ! a)) \<noteq>
                 Suc (destroy_calls (heap w ! a)) \<longrightarrow>
            destroy_calls (apply_touch (touched x w a) (heap w ! a)) = destroy_calls (heap w ! a))"
    by (rule destroyed_only_by_touch [OF ok]) (use live in auto)
  have "destroy_calls (apply_touch (touched x w a) (heap w ! a)) = Suc (destroy_calls (heap w ! a))"
    if scope: "list_all owning_op xs" "owning_op x"
      and last: "shared_counter (heap w ! a) = 1"
        "shared_counter (apply_touch (touched x w a) (heap w ! a)) = 0"
  proof -
    have kept: "list_all kept (heap w)"
      using wf_empty _ scope(1) _ _ assms(1)
      by (rule kept_run) (use assms(2) in \<open>simp_all add: empty_world_def\<close>)
    then have k: "kept (heap w ! a)"
      using assms(3) by (simp add: list_all_length)
    have "(destroy_calls (apply_touch (touched x w a) (heap w ! a)) =
             Suc (destroy_calls (heap w ! a)) \<longleftrightarrow>
            shared_counter (heap w ! a) = 1 \<and>
            shared_counter (apply_touch (touched x w a) (heap w ! a)) = 0) \<and>
         (destroy_calls (apply_touch (touched x w a) (heap w ! a)) \<noteq>
             Suc (destroy_calls (heap w ! a)) \<longrightarrow>
            destroy_calls (apply_touch (touched x w a) (heap w ! a)) = destroy_calls (heap w ! a)) \<and>
         kept (apply_touch (touched x w a) (heap w ! a))"
      by (rule destroyed_by_touch [OF ok k])
        (use live touched_IncS [OF wf _ scope(2), of a] in auto)
    with last show ?thesis by simp
  qed
  then show ?thesis
    using w' once blk only by simp
qed

lemma payload_destroyed_once_witness:
  "run [NewShared (Some (Raw 0)), CopyShared 0, ResetShared 0] empty_world =
     Some \<lparr>heap = [\<lparr>shared_counter = 1, weak_counter = 0, body = PtrControlBlock (Some (Raw 0)),
        destroy_calls = 0, free_calls = 0\<rparr>],
      sptrs = [\<lparr>obj = None, block = None\<rparr>, \<lparr>obj = Some (Raw 0), block = Some 0\<rparr>], wptrs = []\<rparr> \<and>
   state_after (step (ResetShared 1)
     \<lparr>heap = [\<lparr>shared_counter = 1, weak_counter = 0, body = PtrControlBlock (Some (Raw 0)),
        destroy_calls = 0, free_calls = 0\<rparr>],
      sptrs = [\<lparr>obj = None, block = None\<rparr>, \<lparr>obj = Some (Raw 0), block = Some 0\<rparr>], wptrs = []\<rparr>) =
     Some \<lparr>heap = [\<lparr>shared_counter = 0, weak_counter = 0, body = PtrControlBlock None,
        destroy_calls = 1, free_calls = 1\<rparr>],
      sptrs = [\<lparr>obj = None, block = None\<rparr>, \<lparr>obj = None, block = None\<rparr>], wptrs = []\<rparr> \<and>
   destroy_calls (heap \<lparr>heap = [\<lparr>shared_counter = 0, weak_counter = 0, body = PtrControlBlock None,
        destroy_calls = 1, free_calls = 1\<rparr>],
      sptrs = [\<lparr>obj = None, block = None\<rparr>, \<lparr>obj = None, block = None\<rparr>], wptrs = []\<rparr> ! 0) = Suc 0"
proof -
  have h: "run [NewShared (Some (Raw 0)), CopyShared 0, ResetShared 0] empty_world =
     Some \<lparr>heap = [\<lparr>shared_counter = 1, weak_counter = 0, body = PtrControlBlock (Some (Raw 0)),
        destroy_calls = 0, free_calls = 0\<rparr>],
      sptrs = [\<lparr>obj = None, block = None\<rparr>, \<lparr>obj = Some (Raw 0), block = Some 0\<rparr>], wptrs = []\<rparr>"
    by (simp add: model_defs)
  show ?thesis
    using h payload_destroyed_once_when_strong_count_reaches_zero
      [OF h, where x = "ResetShared 1" and a = 0]
    by (simp add: model_defs)
qed

text \<open>
  For the same programs, the block \<open>a\<close> is freed at most once, no operation touches a
  freed block, and the block is freed exactly by the operation whose decrement leaves
  both counts 0, the \<open>Reset\<close> of a weak pointer with \<open>can_i_delete_block_\<close> false apart,
  which frees nothing. None of this carries over to a payload that holds a pointer
  (claim C2).
\<close>

lemma block_freed_once_when_last_reference_goes:
  assumes "run xs empty_world = Some w" and "length xs < 2 ^ 64 - 1" and "a < length (heap w)"
  shows "\<exists>w'. state_after (step x w) = Some w' \<and>
           free_calls (heap w' ! a) \<le> 1 \<and>
           (free_calls (heap w' ! a) = Suc (free_calls (heap w ! a)) \<longleftrightarrow>
              shared_counter (heap w' ! a) = 0 \<and> weak_counter (heap w' ! a) = 0 \<and>
              \<not> (shared_counter (heap w ! a) = 0 \<and> weak_counter (heap w ! a) = 0) \<and>
              \<not> keeps_block x w) \<and>
           (free_calls (heap w' ! a) \<noteq> Suc (free_calls (heap w ! a)) \<longrightarrow>
              free_calls (heap w' ! a) = free_calls (heap w ! a))"
proof -
  from reachable_wf [OF assms(1,2)]
  have wf: "wf w" and ls: "length (sptrs w) < 2 ^ 64 - 1" and lw: "length (wptrs w) < 2 ^ 64 - 1"
    by simp_all
  from wf_step [OF wf ls lw, of x]
  obtain w' where w': "state_after (step x w) = Some w'" and wf': "wf w'"
    by blast
  have a': "a < length (heap w')"
    using step_lengths [OF w'] assms(3) by simp
  have once: "free_calls (heap w' ! a) \<le> 1"
    using wf_block [OF wf' a'] by (simp add: block_ok_def)
  have blk: "heap w' ! a = apply_touch (touched x w a) (heap w ! a)"
    using wf w' assms(3) by (rule step_block)
  have ok: "block_ok (heap w ! a) (srefs a (sptrs w)) (wrefs a (wptrs w))"
    using wf assms(3) by (rule wf_block)
  have n: "srefs a (sptrs w) < 2 ^ 64 - 1" "wrefs a (wptrs w) < 2 ^ 64 - 1"
    using srefs_le [of a "sptrs w"] wrefs_le [of a "wptrs w"] ls lw by simp_all
  note live = touched_live [OF wf refl, of x a]
  have "(free_calls (apply_touch (touched x w a) (heap w ! a)) = Suc (free_calls (heap w ! a)) \<longleftrightarrow>
            shared_counter (apply_touch (touched x w a) (heap w ! a)) = 0 \<and>
            weak_counter (apply_touch (touched x w a) (heap w ! a)) = 0 \<and>
            \<not> (shared_counter (heap w ! a) = 0 \<and> weak_counter (heap w ! a) = 0) \<and>
            \<not> keeps_block x w) \<and>
         (free_calls (apply_touch (touched x w a) (heap w ! a)) \<noteq> Suc (free_calls (heap w ! a)) \<longrightarrow>
            free_calls (apply_touch (touched x w a) (heap w ! a)) = free_calls (heap w ! a))"
    by (rule freed_by_touch [OF ok n]) (use live in auto)
  then show ?thesis
    using w' once blk by simp
qed

lemma block_freed_once_witness:
  "run [NewShared (Some (Raw 0)), WeakOfShared 0, ResetShared 0] empty_world =
     Some \<lparr>heap = [\<lparr>shared_counter = 0, weak_counter = 1, body = PtrControlBlock None,
        destroy_calls = 1, free_calls = 0\<rparr>],
      sptrs = [\<lparr>obj = None, block = None\<rparr>], wptrs = [\<lparr>wobj = Some (Raw 0), wblock = Some 0, can_i_delete_block = True\<rparr>]\<rparr> \<and>
   state_after (step (ResetWeak 0)
     \<lparr>heap = [\<lparr>shared_counter = 0, weak_counter = 1, body = PtrControlBlock None,
        destroy_calls = 1, free_calls = 0\<rparr>],
      sptrs = [\<lparr>obj = None, block = None\<rparr>], wptrs = [\<lparr>wobj = Some (Raw 0), wblock = Some 0, can_i_delete_block = True\<rparr>]\<rparr>) =
     Some \<lparr>heap = [\<lparr>shared_counter = 0, weak_counter = 0, body = PtrControlBlock None,
        destroy_calls = 1, free_calls = 1\<rparr>],
      sptrs = [\<lparr>obj = None, block = None\<rparr>], wptrs = [\<lparr>wobj = None, wblock = None, can_i_delete_block = True\<rparr>]\<rparr> \<and>
   free_calls (heap \<lparr>heap = [\<lparr>shared_counter = 0, weak_counter = 0, body = PtrControlBlock None,
        destroy_calls = 1, free_calls = 1\<rparr>],
      sptrs = [\<lparr>obj = None, block = None\<rparr>], wptrs = [\<lparr>wobj = None, wblock = None, can_i_delete_block = True\<rparr>]\<rparr> ! 0) = Suc 0"
proof -
  have h: "run [NewShared (Some (Raw 0)), WeakOfShared 0, ResetShared 0] empty_world =
     Some \<lparr>heap = [\<lparr>shared_counter = 0, weak_counter = 1, body = PtrControlBlock None,
        destroy_calls = 1, free_calls = 0\<rparr>],
      sptrs = [\<lparr>obj = None, block = None\<rparr>], wptrs = [\<lparr>wobj = Some (Raw 0), wblock = Some 0, can_i_delete_block = True\<rparr>]\<rparr>"
    by (simp add: model_defs)
  show ?thesis
    using h block_freed_once_when_last_reference_goes
      [OF h, where x = "ResetWeak 0" and a = 0]
    by (simp add: model_defs)
qed

section \<open>A payload that holds the last weak pointer on its own block\<close>

text \<open>
  On every heap, for a block \<open>a\<close> with strong count 1 and weak count 1 whose payload
  \<open>p\<close> holds the weak pointer, with \<open>can_i_delete_block_\<close> true: the \<open>delete ptr_\<close> that
  \<open>DeleteData\<close> runs once the strong count is 0 returns with two destructor calls counted
  and the block deallocated, and the \<open>Reset\<close> of the owner has undefined behaviour.
\<close>

lemma Reset_with_last_weak_pointer_in_payload:
  assumes "live_block h a = Some b" "shared_counter b = 1" "weak_counter b = 1"
    and "body b = PtrControlBlock (Some p)"
    and "wblock self = Some a" "can_i_delete_block self"
  shows "destroy_payload (Node_destructor p self deeper) a p
           (h[a := b\<lparr>shared_counter := 0\<rparr>]) =
           Returned ()
             (h[a := b\<lparr>shared_counter := 0, destroy_calls := Suc (Suc (destroy_calls b)),
                      weak_counter := - 1, body := PtrControlBlock None,
                      free_calls := Suc 0\<rparr>])"
    and "SharedPtr_Reset_on (Node_destructor p self deeper) \<lparr>obj = ob, block = Some a\<rparr> h = Undefined"
proof -
  from live_block_eq [OF assms(1)] have a: "a < length h" and f: "free_calls b = 0"
    by auto
  show "destroy_payload (Node_destructor p self deeper) a p
           (h[a := b\<lparr>shared_counter := 0\<rparr>]) =
           Returned ()
             (h[a := b\<lparr>shared_counter := 0, destroy_calls := Suc (Suc (destroy_calls b)),
                      weak_counter := - 1, body := PtrControlBlock None,
                      free_calls := Suc 0\<rparr>])"
    using assms a f by (simp add: on_defs)
  show "SharedPtr_Reset_on (Node_destructor p self deeper) \<lparr>obj = ob, block = Some a\<rparr> h = Undefined"
    using assms a f by (simp add: on_defs)
qed

text \<open>
  The same for a node made by \<open>MakeShared\<close>: \<open>~MakeSharedControlBlock\<close> finds
  \<open>was_data_deleted_\<close> false, because \<open>DeleteData\<close> sets it only after \<open>Get()->~T()\<close> has
  returned.
\<close>

lemma Reset_with_last_weak_pointer_in_MakeShared_payload:
  "destroy_payload
     (Node_destructor (Storage 0)
        \<lparr>wobj = Some (Storage 0), wblock = Some 0, can_i_delete_block = True\<rparr> deeper)
     0 (Storage 0)
     [\<lparr>shared_counter = 0, weak_counter = 1, body = MakeSharedControlBlock False,
        destroy_calls = 0, free_calls = 0\<rparr>] =
     Returned ()
       [\<lparr>shared_counter = 0, weak_counter = - 1, body = MakeSharedControlBlock False,
          destroy_calls = 2, free_calls = 1\<rparr>] \<and>
   SharedPtr_Reset_on
     (Node_destructor (Storage 0)
        \<lparr>wobj = Some (Storage 0), wblock = Some 0, can_i_delete_block = True\<rparr> deeper)
     \<lparr>obj = Some (Storage 0), block = Some 0\<rparr>
     [\<lparr>shared_counter = 1, weak_counter = 1, body = MakeSharedControlBlock False,
        destroy_calls = 0, free_calls = 0\<rparr>] = Undefined"
  by (simp add: on_defs)

section \<open>Move-assignment from a member of the payload the destination owns\<close>

text \<open>
  \<open>head = std::move(head->next)\<close> on a list of two nodes, each node owned by a
  \<open>SharedPtr\<close> and holding the \<open>SharedPtr\<close> \<open>next\<close>: the destination \<open>head\<close> owns the first
  node (block 0), the source \<open>head->next\<close> is a member of that node and owns the second
  node (block 1). The \<open>Reset()\<close> of the destination destroys the first node, whose
  destructor releases \<open>next\<close> and with it the second node and its block; \<open>Swap\<close> then
  reads the destroyed member. No pointer is left on either node.
\<close>

lemma move_assign_from_member_destroys_source:
  "SharedPtr_Reset_on (releasing_shared (Raw 0) \<lparr>obj = Some (Raw 1), block = Some 1\<rparr> inert)
     \<lparr>obj = Some (Raw 0), block = Some 0\<rparr>
     [\<lparr>shared_counter = 1, weak_counter = 0, body = PtrControlBlock (Some (Raw 0)),
        destroy_calls = 0, free_calls = 0\<rparr>,
      \<lparr>shared_counter = 1, weak_counter = 0, body = PtrControlBlock (Some (Raw 1)),
        destroy_calls = 0, free_calls = 0\<rparr>] =
   Returned \<lparr>obj = None, block = None\<rparr>
     [\<lparr>shared_counter = 0, weak_counter = 0, body = PtrControlBlock None,
        destroy_calls = 1, free_calls = 1\<rparr>,
      \<lparr>shared_counter = 0, weak_counter = 0, body = PtrControlBlock None,
        destroy_calls = 1, free_calls = 1\<rparr>] \<and>
   SharedPtr_move_assign_on (releasing_shared (Raw 0) \<lparr>obj = Some (Raw 1), block = Some 1\<rparr> inert)
     \<lparr>obj = Some (Raw 0), block = Some 0\<rparr> \<lparr>obj = Some (Raw 1), block = Some 1\<rparr> [0] False
     [\<lparr>shared_counter = 1, weak_counter = 0, body = PtrControlBlock (Some (Raw 0)),
        destroy_calls = 0, free_calls = 0\<rparr>,
      \<lparr>shared_counter = 1, weak_counter = 0, body = PtrControlBlock (Some (Raw 1)),
        destroy_calls = 0, free_calls = 0\<rparr>] = Undefined"
  by (simp add: on_defs)

text \<open>
  The same assignment on a list of nodes owned by \<open>UniquePtr\<close>: the deleter of the
  destination, called on the first node, destroys the member \<open>next\<close> before \<open>Swap\<close> reads
  it.
\<close>

lemma UniquePtr_move_assign_from_member_destroys_source:
  "kills d h \<Longrightarrow>
   UniquePtr_move_assign_on kills dflt \<lparr>GetFirst = Some h, GetSecond = d\<rparr> other False log = None"
  by (simp add: UniquePtr_move_assign_on_def UniquePtr_Reset_def UniquePtr_Swap_def)

section \<open>The claims\<close>

text \<open>
  The theorems about programs speak of a world \<open>w\<close> that a program \<open>xs\<close> reaches from
  the empty world. The bound on the length of \<open>xs\<close> says that fewer than \<open>2^64 - 1\<close>
  pointer objects exist, so that no counter has wrapped around. \<open>state_after\<close> gives
  the world an operation leaves, whether it returned or threw; that it is not \<open>None\<close>
  says that the operation touched no deallocated block.
\<close>

text \<open>
  Claim C1. For every control block and every sequence of shared-pointer operations on
  it, the payload is destroyed at most once, and exactly in the operation in which the
  strong count goes from 1 to 0: not earlier, not later, and not again when the block
  is freed. The code destroys the payload twice when the payload holds the last weak
  pointer on its own block, as in \<open>struct Node { WeakPtr<Node> self; };
  SharedPtr<Node> p(new Node); p->self = WeakPtr<Node>(p); p.Reset();\<close>. The first two
  statements leave one block, with strong count 1 and weak count 1. In \<open>p.Reset()\<close>,
  \<open>DecrementShared\<close> takes the strong count to 0 and \<open>DeleteData\<close> runs \<open>delete ptr_\<close>.
  The destructor of the node releases \<open>self\<close>: the weak count goes to 0 and
  \<open>WeakPtr::Reset\<close> runs \<open>delete block_\<close>, whose \<open>~PtrControlBlock\<close> calls \<open>DeleteData\<close>
  again; \<open>ptr_\<close> is still set, so \<open>delete ptr_\<close> runs a second time. When the
  destructor started by the first \<open>delete ptr_\<close> returns, the block has counted two
  destructor calls and one deallocation, and its weak counter has wrapped around to
  \<open>2^64 - 1\<close> (the word \<open>- 1\<close>). \<open>DeleteData\<close> then writes \<open>ptr_\<close> in the deallocated block,
  so \<open>DecrementShared\<close> has no defined result. In the theorem, the first equation builds
  the heap with the operations on pointer variables, the weak pointer standing for the
  member \<open>self\<close>; the second is the first \<open>delete ptr_\<close>, run in the heap in which
  \<open>DecrementShared\<close> has written the strong count 0; the third is \<open>DecrementShared\<close>
  itself. All three hold whatever the destructor \<open>deeper\<close> does.
\<close>

theorem payload_destroyed_twice_when_payload_holds_last_weak_pointer:
  "run [NewShared (Some (Raw 0)), WeakOfShared 0] empty_world =
     Some \<lparr>heap = [\<lparr>shared_counter = 1, weak_counter = 1, body = PtrControlBlock (Some (Raw 0)),
        destroy_calls = 0, free_calls = 0\<rparr>],
           sptrs = [\<lparr>obj = Some (Raw 0), block = Some 0\<rparr>],
           wptrs = [\<lparr>wobj = Some (Raw 0), wblock = Some 0, can_i_delete_block = True\<rparr>]\<rparr> \<and>
   destroy_payload
     (Node_destructor (Raw 0) \<lparr>wobj = Some (Raw 0), wblock = Some 0, can_i_delete_block = True\<rparr>
        deeper)
     0 (Raw 0)
     [\<lparr>shared_counter = 0, weak_counter = 1, body = PtrControlBlock (Some (Raw 0)),
        destroy_calls = 0, free_calls = 0\<rparr>] =
     Returned ()
       [\<lparr>shared_counter = 0, weak_counter = - 1, body = PtrControlBlock None,
          destroy_calls = 2, free_calls = 1\<rparr>] \<and>
   DecrementShared_on
     (Node_destructor (Raw 0) \<lparr>wobj = Some (Raw 0), wblock = Some 0, can_i_delete_block = True\<rparr>
        deeper)
     0
     [\<lparr>shared_counter = 1, weak_counter = 1, body = PtrControlBlock (Some (Raw 0)),
        destroy_calls = 0, free_calls = 0\<rparr>] = Undefined"
  by (simp add: on_defs step_def empty_world_def push_shared_def push_weak_def
      SharedPtr_from_raw_def new_PtrControlBlock_def IncrementShared_def
      WeakPtr_from_shared_def IncrementWeak_def)


text \<open>
  Claim C3. If the payload's constructor throws during \<open>MakeShared\<close>, the control block
  is freed at once, the payload's destructor is never run, and the exception reaches
  the caller with no allocation left. The code frees the block and rethrows, but
  \<open>delete block_ptr\<close> runs \<open>~MakeSharedControlBlock\<close>, which finds \<open>was_data_deleted_\<close>
  false and runs the destructor of the payload that was never constructed: on every
  heap, the block left behind by the failed call has one destructor call.
\<close>

theorem MakeShared_failed_constructor_runs_payload_destructor:
  "MakeShared True h =
     Thrown ConstructorFailure
       (h @ [\<lparr>shared_counter = 1, weak_counter = 0, body = MakeSharedControlBlock False,
              destroy_calls = 1, free_calls = 1\<rparr>])"
  by (simp add: MakeShared_def Let_def new_MakeSharedControlBlock_def IncrementShared_def
      delete_block_def destructor_def)

text \<open>
  Claim C4. \<open>Lock\<close> never fails; on an expired weak pointer it returns an empty shared
  pointer and leaves the strong count alone; on a live one it returns a pointer to the
  same block with the count one higher. The program \<open>SharedPtr p(new T); WeakPtr w(p);
  p.Reset(); auto q = w.Lock();\<close> leaves the weak pointer expired with its block
  attached, and there \<open>Lock\<close> returns a pointer that has the block attached (its boolean
  conversion is true, its \<open>UseCount\<close> is 1) and raises the strong count from 0 to 1.
  The rest of the claim holds: \<open>Lock_never_throws\<close>, \<open>Lock_of_live_pointer\<close> and
  \<open>Lock_of_unattached_pointer\<close>.
\<close>

theorem Lock_of_expired_pointer_attaches_block:
  "run [NewShared (Some (Raw 0)), WeakOfShared 0, ResetShared 0] empty_world =
     Some \<lparr>heap = [\<lparr>shared_counter = 0, weak_counter = 1, body = PtrControlBlock None,
                     destroy_calls = 1, free_calls = 0\<rparr>],
           sptrs = [\<lparr>obj = None, block = None\<rparr>],
           wptrs = [\<lparr>wobj = Some (Raw 0), wblock = Some 0, can_i_delete_block = True\<rparr>]\<rparr> \<and>
   WeakPtr_Expired \<lparr>wobj = Some (Raw 0), wblock = Some 0, can_i_delete_block = True\<rparr>
     [\<lparr>shared_counter = 0, weak_counter = 1, body = PtrControlBlock None,
       destroy_calls = 1, free_calls = 0\<rparr>] = Some True \<and>
   WeakPtr_Lock \<lparr>wobj = Some (Raw 0), wblock = Some 0, can_i_delete_block = True\<rparr>
     [\<lparr>shared_counter = 0, weak_counter = 1, body = PtrControlBlock None,
       destroy_calls = 1, free_calls = 0\<rparr>] =
     Returned \<lparr>obj = None, block = Some 0\<rparr>
       [\<lparr>shared_counter = 1, weak_counter = 1, body = PtrControlBlock None,
         destroy_calls = 1, free_calls = 0\<rparr>] \<and>
   SharedPtr_bool \<lparr>obj = None, block = Some 0\<rparr> \<and>
   SharedPtr_UseCount \<lparr>obj = None, block = Some 0\<rparr>
     [\<lparr>shared_counter = 1, weak_counter = 1, body = PtrControlBlock None,
       destroy_calls = 1, free_calls = 0\<rparr>] = Some 1"
  by (simp add: step_def empty_world_def push_shared_def push_weak_def SharedPtr_from_raw_def
      new_PtrControlBlock_def IncrementShared_def WeakPtr_from_shared_def live_block_def
      IncrementWeak_def SharedPtr_Reset_def DecrementShared_def DeleteData_def
      CanBlockBeDeleted_def Let_def WeakPtr_Expired_def GetSharedCount_def WeakPtr_Lock_def
      SharedPtr_from_weak_def SharedPtr_bool_def SharedPtr_UseCount_def)

text \<open>
  Claim C5. The strict promotion of a weak pointer raises the expired-reference failure
  exactly when the pointer is expired, the case of no block attached included. A
  default-constructed weak pointer is expired, and its strict promotion returns an empty
  shared pointer on every heap: the test of \<open>other.Expired()\<close> is only reached under
  \<open>if (block_)\<close>. With a block attached the promotion throws exactly when the strong
  count is 0 (\<open>strict_promotion_with_block\<close>), and no other operation throws
  \<open>BadWeakPtr\<close> (\<open>only_strict_promotion_throws_BadWeakPtr\<close>).
\<close>

theorem strict_promotion_of_unattached_pointer_returns:
  "WeakPtr_Expired WeakPtr_default h = Some True \<and>
   SharedPtr_from_weak WeakPtr_default False h = Returned \<lparr>obj = None, block = None\<rparr> h"
  by (simp add: WeakPtr_Expired_def WeakPtr_default_def SharedPtr_from_weak_def)

text \<open>
  Claim C6. For a payload with the self-referencing capability, the first wrapping by an
  owning pointer (from a raw handle, or by the combined-allocation factory) installs a
  weak reference to the payload, and a later \<open>SharedFromThis\<close> returns a shared pointer
  whose address is the payload's and whose \<open>UseCount\<close> shows one more owner. Right after
  the wrapping the count goes from 1 to 2; in any later state in which the payload is
  still owned (its block allocated, strong count \<open>c\<close> not 0), the promotion of the
  installed reference returns the payload's address on the same block, with count
  \<open>c + 1\<close>.
\<close>

theorem SharedFromThis_after_wrapping:
  "wrap_raw_ESFT ptr h =
     Returned (\<lparr>obj = Some ptr, block = Some (length h)\<rparr>,
               \<lparr>wobj = Some ptr, wblock = Some (length h), can_i_delete_block = False\<rparr>)
       (h @ [\<lparr>shared_counter = 1, weak_counter = 1, body = PtrControlBlock (Some ptr),
               destroy_calls = 0, free_calls = 0\<rparr>]) \<and>
   SharedFromThis \<lparr>wobj = Some ptr, wblock = Some (length h), can_i_delete_block = False\<rparr>
       (h @ [\<lparr>shared_counter = 1, weak_counter = 1, body = PtrControlBlock (Some ptr),
               destroy_calls = 0, free_calls = 0\<rparr>]) =
     Returned \<lparr>obj = Some ptr, block = Some (length h)\<rparr>
       (h @ [\<lparr>shared_counter = 2, weak_counter = 1, body = PtrControlBlock (Some ptr),
               destroy_calls = 0, free_calls = 0\<rparr>]) \<and>
   MakeShared_ESFT False h =
     Returned (\<lparr>obj = Some (Storage (length h)), block = Some (length h)\<rparr>,
               \<lparr>wobj = Some (Storage (length h)), wblock = Some (length h),
                  can_i_delete_block = False\<rparr>)
       (h @ [\<lparr>shared_counter = 1, weak_counter = 1, body = MakeSharedControlBlock False,
               destroy_calls = 0, free_calls = 0\<rparr>]) \<and>
   SharedFromThis \<lparr>wobj = Some (Storage (length h)), wblock = Some (length h),
                     can_i_delete_block = False\<rparr>
       (h @ [\<lparr>shared_counter = 1, weak_counter = 1, body = MakeSharedControlBlock False,
               destroy_calls = 0, free_calls = 0\<rparr>]) =
     Returned \<lparr>obj = Some (Storage (length h)), block = Some (length h)\<rparr>
       (h @ [\<lparr>shared_counter = 2, weak_counter = 1, body = MakeSharedControlBlock False,
               destroy_calls = 0, free_calls = 0\<rparr>]) \<and>
   (live_block hp a = Some b \<and> shared_counter b \<noteq> 0 \<longrightarrow>
      SharedFromThis \<lparr>wobj = ob, wblock = Some a, can_i_delete_block = False\<rparr> hp =
        Returned \<lparr>obj = ob, block = Some a\<rparr> (hp[a := IncrementShared b]) \<and>
      SharedPtr_UseCount \<lparr>obj = ob, block = Some a\<rparr> (hp[a := IncrementShared b]) =
        Some (shared_counter b + 1) \<and>
      SharedPtr_UseCount \<lparr>obj = ob, block = Some a\<rparr> hp = Some (shared_counter b))"
  by (auto simp: wrap_raw_ESFT_def MakeShared_ESFT_def SharedPtr_from_raw_def MakeShared_def
      WeakPtr_for_ESFT_def SharedFromThis_def SharedPtr_from_weak_def WeakPtr_Expired_def
      live_block_def new_PtrControlBlock_def new_MakeSharedControlBlock_def IncrementShared_def
      IncrementWeak_def GetSharedCount_def SharedPtr_UseCount_def Let_def nth_append
      split: if_splits)

theorem SharedFromThis_after_wrapping_witness:
  "SharedFromThis \<lparr>wobj = Some (Raw 7), wblock = Some 0, can_i_delete_block = False\<rparr>
     [\<lparr>shared_counter = 3, weak_counter = 1, body = PtrControlBlock (Some (Raw 7)),
        destroy_calls = 0, free_calls = 0\<rparr>] =
     Returned \<lparr>obj = Some (Raw 7), block = Some 0\<rparr>
       [\<lparr>shared_counter = 4, weak_counter = 1, body = PtrControlBlock (Some (Raw 7)),
          destroy_calls = 0, free_calls = 0\<rparr>] \<and>
   SharedPtr_UseCount \<lparr>obj = Some (Raw 7), block = Some 0\<rparr>
     [\<lparr>shared_counter = 4, weak_counter = 1, body = PtrControlBlock (Some (Raw 7)),
        destroy_calls = 0, free_calls = 0\<rparr>] = Some 4"
  using SharedFromThis_after_wrapping
    [where hp = "[\<lparr>shared_counter = 3, weak_counter = 1, body = PtrControlBlock (Some (Raw 7)),
                    destroy_calls = 0, free_calls = 0\<rparr>]"
       and a = 0 and ob = "Some (Raw 7)"
       and b = "\<lparr>shared_counter = 3, weak_counter = 1, body = PtrControlBlock (Some (Raw 7)),
                  destroy_calls = 0, free_calls = 0\<rparr>"]
  by (simp add: live_block_def IncrementShared_def)

text \<open>
  Claim C7. A shared pointer with \<open>N\<close> live copies has \<open>UseCount\<close> \<open>N\<close> on each copy; each
  copy made raises it by exactly 1, each copy destroyed or reset lowers it by exactly 1,
  and an empty shared pointer has \<open>UseCount\<close> 0. In every world a program reaches,
  \<open>UseCount\<close> of each shared pointer is the number of shared pointers that hold its block
  (\<open>copies\<close>); copying a pointer that holds a block gives a new pointer on the same
  block and makes the count of both one higher; resetting a pointer makes its own count
  0 and the count of every other pointer on its block one lower.
\<close>

theorem UseCount_is_number_of_live_copies:
  assumes "run xs empty_world = Some w" and "length xs < 2 ^ 64 - 1" and "i < length (sptrs w)"
  shows "(\<exists>c. SharedPtr_UseCount (sptrs w ! i) (heap w) = Some c \<and>
              unat c = copies (sptrs w ! i) w) \<and>
         (\<forall>a. block (sptrs w ! i) = Some a \<longrightarrow>
            (\<exists>w' c c'. step (CopyShared i) w = Returned () w' \<and>
               length (sptrs w') = Suc (length (sptrs w)) \<and>
               block (sptrs w' ! length (sptrs w)) = block (sptrs w ! i) \<and>
               obj (sptrs w' ! length (sptrs w)) = obj (sptrs w ! i) \<and>
               sptrs w' ! i = sptrs w ! i \<and>
               SharedPtr_UseCount (sptrs w ! i) (heap w) = Some c \<and>
               SharedPtr_UseCount (sptrs w' ! i) (heap w') = Some c' \<and>
               SharedPtr_UseCount (sptrs w' ! length (sptrs w)) (heap w') = Some c' \<and>
               c' = c + 1 \<and> unat c' = Suc (unat c) \<and>
               copies (sptrs w' ! i) w' = Suc (copies (sptrs w ! i) w))) \<and>
         (\<exists>w'. step (ResetShared i) w = Returned () w' \<and>
            SharedPtr_UseCount (sptrs w' ! i) (heap w') = Some 0 \<and>
            (\<forall>j a. j < length (sptrs w) \<and> j \<noteq> i \<and> block (sptrs w ! j) = Some a \<and>
                   block (sptrs w ! i) = Some a \<longrightarrow>
               (\<exists>c c'. sptrs w' ! j = sptrs w ! j \<and>
                  SharedPtr_UseCount (sptrs w ! j) (heap w) = Some c \<and>
                  SharedPtr_UseCount (sptrs w' ! j) (heap w') = Some c' \<and>
                  c' = c - 1 \<and> Suc (unat c') = unat c \<and>
                  Suc (copies (sptrs w' ! j) w') = copies (sptrs w ! j) w))) \<and>
         SharedPtr_UseCount \<lparr>obj = ob, block = None\<rparr> h = Some 0"
proof -
  from reachable_wf [OF assms(1,2)]
  have wf: "wf w" and ls: "length (sptrs w) < 2 ^ 64 - 1" and lw: "length (wptrs w) < 2 ^ 64 - 1"
    by simp_all
  have one: "\<exists>c. SharedPtr_UseCount (sptrs w ! i) (heap w) = Some c \<and>
              unat c = copies (sptrs w ! i) w"
    using use_count_wf [OF wf assms(3)] by blast
  have empty: "SharedPtr_UseCount \<lparr>obj = ob, block = None\<rparr> h = Some 0"
    by (simp add: SharedPtr_UseCount_def)
  show ?thesis
    using one empty use_count_after_copy [OF wf ls lw assms(3)]
      use_count_after_reset [OF wf ls lw assms(3)]
    by blast
qed

theorem UseCount_is_number_of_live_copies_witness:
  "run [NewShared (Some (Raw 0)), CopyShared 0] empty_world =
     Some \<lparr>heap = [\<lparr>shared_counter = 2, weak_counter = 0,
                     body = PtrControlBlock (Some (Raw 0)), destroy_calls = 0, free_calls = 0\<rparr>],
           sptrs = [\<lparr>obj = Some (Raw 0), block = Some 0\<rparr>, \<lparr>obj = Some (Raw 0), block = Some 0\<rparr>],
           wptrs = []\<rparr> \<and>
   SharedPtr_UseCount \<lparr>obj = Some (Raw 0), block = Some 0\<rparr>
     [\<lparr>shared_counter = 2, weak_counter = 0, body = PtrControlBlock (Some (Raw 0)),
        destroy_calls = 0, free_calls = 0\<rparr>] = Some 2 \<and>
   copies \<lparr>obj = Some (Raw 0), block = Some 0\<rparr>
     \<lparr>heap = [\<lparr>shared_counter = 2, weak_counter = 0,
                body = PtrControlBlock (Some (Raw 0)), destroy_calls = 0, free_calls = 0\<rparr>],
      sptrs = [\<lparr>obj = Some (Raw 0), block = Some 0\<rparr>, \<lparr>obj = Some (Raw 0), block = Some 0\<rparr>],
      wptrs = []\<rparr> = 2"
proof -
  have h: "run [NewShared (Some (Raw 0)), CopyShared 0] empty_world =
     Some \<lparr>heap = [\<lparr>shared_counter = 2, weak_counter = 0,
                     body = PtrControlBlock (Some (Raw 0)), destroy_calls = 0, free_calls = 0\<rparr>],
           sptrs = [\<lparr>obj = Some (Raw 0), block = Some 0\<rparr>, \<lparr>obj = Some (Raw 0), block = Some 0\<rparr>],
           wptrs = []\<rparr>"
    by (simp add: model_defs)
  show ?thesis
    using h UseCount_is_number_of_live_copies [OF h, where i = 0]
    by (simp add: model_defs copies_def srefs_def)
qed




text \<open>
  Claim C9. For a shared pointer \<open>p\<close> over an object and any address \<open>ptr\<close>, the aliasing
  constructor gives a pointer \<open>q\<close> on the control block of \<open>p\<close>, with the strong count one
  higher, \<open>q.Get() == ptr\<close> and \<open>q.UseCount() == p.UseCount()\<close>; the object stays
  alive while \<open>q\<close> lives, whatever happens to \<open>p\<close> and the other owners. Here \<open>p\<close> is the
  pointer at position \<open>i\<close> of a reachable world, \<open>q\<close> is the new pointer, and \<open>ys\<close> is any
  program that spares \<open>q\<close>: after it the block is still allocated, and its payload has
  had no destructor call more and is still held by the block.
\<close>

theorem alias_shares_block_and_keeps_payload_alive:
  assumes "run xs empty_world = Some w" and "i < length (sptrs w)"
    and "block (sptrs w ! i) = Some a"
    and "list_all (spares (length (sptrs w))) ys"
    and "length xs + Suc (length ys) < 2 ^ 64 - 1"
  shows "\<exists>w1 w2. step (AliasShared i ptr) w = Returned () w1 \<and>
           SharedPtr_Get (sptrs w1 ! length (sptrs w)) = ptr \<and>
           block (sptrs w1 ! length (sptrs w)) = Some a \<and>
           SharedPtr_UseCount (sptrs w1 ! length (sptrs w)) (heap w1) =
             SharedPtr_UseCount (sptrs w1 ! i) (heap w1) \<and>
           SharedPtr_UseCount (sptrs w1 ! i) (heap w1) = Some (shared_counter (heap w ! a) + 1) \<and>
           SharedPtr_UseCount (sptrs w ! i) (heap w) = Some (shared_counter (heap w ! a)) \<and>
           run ys w1 = Some w2 \<and>
           sptrs w2 ! length (sptrs w) = sptrs w1 ! length (sptrs w) \<and>
           free_calls (heap w2 ! a) = 0 \<and>
           destroy_calls (heap w2 ! a) = destroy_calls (heap w ! a) \<and>
           body (heap w2 ! a) = body (heap w ! a)"
proof -
  have len: "length xs < 2 ^ 64 - 1" using assms(5) by simp
  from reachable_bounds [OF assms(1) len]
  have wf: "wf w" and bs: "length (sptrs w) \<le> length xs" and bw: "length (wptrs w) \<le> length xs"
    by simp_all
  have ls: "length (sptrs w) < 2 ^ 64 - 1" and lw: "length (wptrs w) < 2 ^ 64 - 1"
    using bs bw len by simp_all
  define w1 where "w1 = w\<lparr>heap := (heap w)[a := IncrementShared (heap w ! a)],
                         sptrs := sptrs w @ [\<lparr>obj = ptr, block = Some a\<rparr>]\<rparr>"
  have st: "step (AliasShared i ptr) w = Returned () w1"
    using step_AliasShared_result [OF wf assms(2)] assms(3) by (simp add: w1_def)
  have wf1: "wf w1"
    using wf_step [OF wf ls lw, of "AliasShared i ptr"] st by simp
  note live = wf_shared_live [OF wf assms(2,3)]
  have q: "sptrs w1 ! length (sptrs w) = \<lparr>obj = ptr, block = Some a\<rparr>"
    by (simp add: w1_def)
  have p: "sptrs w1 ! i = sptrs w ! i"
    using assms(2) by (simp add: w1_def nth_append)
  have h1: "heap w1 ! a = IncrementShared (heap w ! a)"
    using live by (simp add: w1_def)
  have k: "length (sptrs w) < length (sptrs w1)" "block (sptrs w1 ! length (sptrs w)) = Some a"
    by (simp_all add: w1_def)
  have i1: "i < length (sptrs w1)" using assms(2) by (simp add: w1_def)
  note u = use_count_wf [OF wf assms(2)] use_count_wf [OF wf1 i1] use_count_wf [OF wf1 k(1)]
  have b1: "length (sptrs w1) + length ys < 2 ^ 64 - 1" "length (wptrs w1) + length ys < 2 ^ 64 - 1"
    using bs bw assms(5) by (simp_all add: w1_def)
  from run_keeps_owner [OF wf1 k assms(4) b1]
  obtain w2 where "run ys w1 = Some w2" "sptrs w2 ! length (sptrs w) = sptrs w1 ! length (sptrs w)"
    "body (heap w2 ! a) = body (heap w1 ! a)"
    "destroy_calls (heap w2 ! a) = destroy_calls (heap w1 ! a)"
    "free_calls (heap w2 ! a) = 0"
    by blast
  then show ?thesis
    using st q p h1 u assms(3) by (simp add: SharedPtr_Get_def)
qed

theorem alias_keeps_payload_alive_witness:
  "run [NewShared (Some (Raw 0))] empty_world =
     Some \<lparr>heap = [\<lparr>shared_counter = 1, weak_counter = 0, body = PtrControlBlock (Some (Raw 0)),
                destroy_calls = 0, free_calls = 0\<rparr>],
      sptrs = [\<lparr>obj = Some (Raw 0), block = Some 0\<rparr>], wptrs = []\<rparr> \<and>
   step (AliasShared 0 (Some (Raw 5)))
     \<lparr>heap = [\<lparr>shared_counter = 1, weak_counter = 0, body = PtrControlBlock (Some (Raw 0)),
                destroy_calls = 0, free_calls = 0\<rparr>],
      sptrs = [\<lparr>obj = Some (Raw 0), block = Some 0\<rparr>], wptrs = []\<rparr> =
     Returned ()
       \<lparr>heap = [\<lparr>shared_counter = 2, weak_counter = 0, body = PtrControlBlock (Some (Raw 0)),
                destroy_calls = 0, free_calls = 0\<rparr>],
      sptrs = [\<lparr>obj = Some (Raw 0), block = Some 0\<rparr>, \<lparr>obj = Some (Raw 5), block = Some 0\<rparr>],
      wptrs = []\<rparr> \<and>
   run [ResetShared 0]
     \<lparr>heap = [\<lparr>shared_counter = 2, weak_counter = 0, body = PtrControlBlock (Some (Raw 0)),
                destroy_calls = 0, free_calls = 0\<rparr>],
      sptrs = [\<lparr>obj = Some (Raw 0), block = Some 0\<rparr>, \<lparr>obj = Some (Raw 5), block = Some 0\<rparr>],
      wptrs = []\<rparr> =
     Some \<lparr>heap = [\<lparr>shared_counter = 1, weak_counter = 0, body = PtrControlBlock (Some (Raw 0)),
                destroy_calls = 0, free_calls = 0\<rparr>],
      sptrs = [\<lparr>obj = None, block = None\<rparr>, \<lparr>obj = Some (Raw 5), block = Some 0\<rparr>],
      wptrs = []\<rparr> \<and>
   destroy_calls (heap \<lparr>heap = [\<lparr>shared_counter = 1, weak_counter = 0, body = PtrControlBlock (Some (Raw 0)),
                destroy_calls = 0, free_calls = 0\<rparr>],
      sptrs = [\<lparr>obj = None, block = None\<rparr>, \<lparr>obj = Some (Raw 5), block = Some 0\<rparr>],
      wptrs = []\<rparr> ! 0) = 0"
proof -
  have h: "run [NewShared (Some (Raw 0))] empty_world =
     Some \<lparr>heap = [\<lparr>shared_counter = 1, weak_counter = 0, body = PtrControlBlock (Some (Raw 0)),
                destroy_calls = 0, free_calls = 0\<rparr>],
      sptrs = [\<lparr>obj = Some (Raw 0), block = Some 0\<rparr>], wptrs = []\<rparr>"
    by (simp add: model_defs)
  show ?thesis
    using h alias_shares_block_and_keeps_payload_alive
      [OF h, where i = 0 and a = 0 and ys = "[ResetShared 0]" and ptr = "Some (Raw 5)"]
    by (simp add: model_defs)
qed

end
